theory Spec2Isabelle
  imports Main "HOL-Library.Word" "HOL-Library.AList"
begin

unbundle bit_operations_syntax

section \<open>Machine types and errors of connection.go\<close>

text \<open>
  Go's \<^verbatim>\<open>byte\<close> is an 8-bit word and \<^verbatim>\<open>uint32\<close> a 32-bit word. Go's \<^verbatim>\<open>int\<close> is
  taken to be the 64-bit one: every \<^verbatim>\<open>int\<close> the code computes from wire bytes is below
  \<open>2 ^ 32\<close> and every \<^verbatim>\<open>len\<close> is a natural number, so they are modelled by \<open>nat\<close>; the
  one narrowing conversion, \<^verbatim>\<open>uint32(len(h) - 5 + len(body))\<close>, is written out as
  \<open>of_nat\<close> into the 32-bit word.
\<close>

type_synonym byte = "8 word"
type_synonym uint32 = "32 word"

text \<open>
  The error values the file creates or passes on. \<open>EOF\<close> and \<open>ErrUnexpectedEOF\<close> are
  what \<^verbatim>\<open>io.ReadAtLeast\<close> and \<^verbatim>\<open>io.ReadFull\<close> return on a stream that ends early;
  \<open>ErrorsNew\<close> is \<^verbatim>\<open>errors.New\<close> and \<^verbatim>\<open>fmt.Errorf\<close> with the final message;
  \<open>ConnectionError\<close> is \<^verbatim>\<open>NewConnectionError\<close>, \<open>ConnectionClosed\<close> is
  \<^verbatim>\<open>ConnectionClosedError()\<close>, \<open>QueryError\<close> wraps the error of a query's \<^verbatim>\<open>Pack\<close>;
  \<open>Foreign\<close> stands for an error made outside this file (a packer, the decoder,
  the dialer, a socket write).
\<close>

datatype error =
    EOF
  | ErrUnexpectedEOF
  | ErrorsNew string
  | ConnectionError string
  | ConnectionClosed
  | QueryError error
  | Foreign string

section \<open>Framing: \<^verbatim>\<open>packIproto\<close> and \<^verbatim>\<open>readMessage\<close>\<close>

text \<open>
  Modelled from the spec: the constant \<^verbatim>\<open>PacketLengthBytes\<close> is declared outside
  connection.go; the spec fixes the length prefix as the marker byte followed by a
  4-byte big-endian length, five bytes.
\<close>

definition PacketLengthBytes :: nat where
  "PacketLengthBytes = 5"

text \<open>
  An \<^verbatim>\<open>io.Reader\<close> is the list of bytes the peer still sends before the stream ends.
  \<^verbatim>\<open>io.ReadAtLeast(r, buf, min)\<close> is only called with \<^verbatim>\<open>len(buf) = min\<close>: it returns
  the first \<open>min\<close> bytes and leaves the rest in the stream, returns at once when
  \<open>min = 0\<close>, fails with \<open>EOF\<close> when nothing could be read and with
  \<open>ErrUnexpectedEOF\<close> when the stream ends inside the buffer.
\<close>

definition ReadAtLeast :: "byte list \<Rightarrow> nat \<Rightarrow> error + (byte list \<times> byte list)" where
  "ReadAtLeast r n =
     (if n \<le> length r then Inr (take n r, drop n r)
      else if r = [] then Inl EOF
      else Inl ErrUnexpectedEOF)"

definition bodyLength :: "byte list \<Rightarrow> nat" where
  "bodyLength header =
     push_bit 24 (unat (header ! 1)) + push_bit 16 (unat (header ! 2)) +
     push_bit 8 (unat (header ! 3)) + unat (header ! 4)"

definition readMessage :: "byte list \<Rightarrow> error + (byte list \<times> byte list)" where
  "readMessage r =
     (case ReadAtLeast r PacketLengthBytes of
        Inl err \<Rightarrow> Inl err
      | Inr (header, r1) \<Rightarrow>
          if header ! 0 \<noteq> 0xce then Inl (ErrorsNew ''Wrong reponse header'')
          else if bodyLength header = 0 then Inl (ErrorsNew ''Response should not be 0 length'')
          else (case ReadAtLeast r1 (bodyLength header) of
                  Inl err \<Rightarrow> Inl err
                | Inr (body, r2) \<Rightarrow> Inr (body, r2)))"

text \<open>
  \<^verbatim>\<open>KeyCode\<close> and \<^verbatim>\<open>KeySync\<close> are constants declared outside connection.go; they are
  parameters of \<open>packIproto\<close>. \<open>h\<close> is the 14-byte array of the source.
\<close>

definition be32 :: "uint32 \<Rightarrow> byte list" where
  "be32 l = [ucast (drop_bit 24 l), ucast (drop_bit 16 l), ucast (drop_bit 8 l), ucast l]"

definition packIproto :: "byte \<Rightarrow> byte \<Rightarrow> byte \<Rightarrow> uint32 \<Rightarrow> byte list \<Rightarrow> byte list" where
  "packIproto KeyCode KeySync requestCode requestID body =
     (let h = [0xce, 0, 0, 0, 0, 0x82, KeyCode, requestCode, KeySync, 0xce] @ be32 requestID;
          l = (of_nat (length h - 5 + length body) :: uint32);
          h = h[1 := ucast (drop_bit 24 l), 2 := ucast (drop_bit 16 l),
                3 := ucast (drop_bit 8 l), 4 := ucast l]
      in h @ body)"

section \<open>Channels, requests, responses and the connection\<close>

text \<open>
  What can make a goroutine of this file panic: a send on a closed channel, closing a
  closed channel, a write through a nil pointer, and a \<^verbatim>\<open>WaitGroup\<close> counted below zero.
\<close>

datatype panic =
  SendOnClosedChannel | CloseOfClosedChannel | NilDereference | NegativeWaitGroupCounter

definition and_then :: "panic + 'a \<Rightarrow> ('a \<Rightarrow> panic + 'b) \<Rightarrow> panic + 'b" where
  "and_then m f = (case m of Inl p \<Rightarrow> Inl p | Inr x \<Rightarrow> f x)"

text \<open>
  \<^verbatim>\<open>Response\<close> is declared outside connection.go; the file uses its fields
  \<^verbatim>\<open>requestID\<close> (here \<open>resRequestID\<close>, since \<open>requestID\<close> is the connection's counter)
  and \<^verbatim>\<open>Error\<close>. \<open>Data\<close> stands for the decoded payload. The literal
  \<^verbatim>\<open>&Response{Error: e}\<close> leaves the other fields at their zero values.
\<close>

record Response =
  resRequestID :: uint32
  Data :: "byte list"
  Error :: "error option"

definition errorResponse :: "error \<Rightarrow> Response" where
  "errorResponse e = \<lparr>resRequestID = 0, Data = [], Error = Some e\<rparr>"

text \<open>
  A reply channel is shared between the submitter and the connection, so it lives in a
  store, addressed by a reference. The model keeps the history of a channel: every value
  sent to it, in order, and whether it has been closed. A send is taken to find a
  receiver or buffer space (the channel is created by the submitter, outside this
  file); a send to a closed channel and a second close panic, as in Go.
\<close>

record reply_chan =
  received :: "Response list"
  isClosed :: bool

type_synonym chan_ref = nat
type_synonym store = "chan_ref \<Rightarrow> reply_chan"

definition send :: "store \<Rightarrow> chan_ref \<Rightarrow> Response \<Rightarrow> panic + store" where
  "send h c v =
     (if isClosed (h c) then Inl SendOnClosedChannel
      else Inr (h(c := (h c)\<lparr>received := received (h c) @ [v]\<rparr>)))"

definition close_chan :: "store \<Rightarrow> chan_ref \<Rightarrow> panic + store" where
  "close_chan h c =
     (if isClosed (h c) then Inl CloseOfClosedChannel
      else Inr (h(c := (h c)\<lparr>isClosed := True\<rparr>)))"

text \<open>
  \<^verbatim>\<open>request\<close> is declared outside connection.go; the file uses its fields \<^verbatim>\<open>query\<close>,
  \<^verbatim>\<open>replyChan\<close> and \<^verbatim>\<open>raw\<close>. The query is a value of any type \<open>'q\<close>; its method
  \<^verbatim>\<open>Pack(requestID, defaultSpace)\<close>, which returns the bytes and an error, is a parameter
  \<open>Pack\<close> of the functions that call it.
\<close>

record 'q request =
  query :: 'q
  replyChan :: chan_ref
  raw :: "byte list"

type_synonym 'q packer = "'q \<Rightarrow> uint32 \<Rightarrow> string \<Rightarrow> byte list \<times> error option"

text \<open>
  A buffered channel of the pipeline: its queued values, its capacity and whether it
  has been closed. \<^verbatim>\<open>len\<close> is the length of the queue. A receive can proceed when a
  value is queued or the channel is closed; a send can proceed when there is room, and
  panics on a closed channel.
\<close>

record 'a chan =
  queue :: "'a list"
  capacity :: nat
  chanClosed :: bool

definition make_chan :: "nat \<Rightarrow> 'a chan" where
  "make_chan n = \<lparr>queue = [], capacity = n, chanClosed = False\<rparr>"

definition recv_ready :: "'a chan \<Rightarrow> bool" where
  "recv_ready c = (queue c \<noteq> [] \<or> chanClosed c)"

text \<open>
  The socket (\<^verbatim>\<open>net.Conn\<close>), seen from this file: the bytes the peer still sends
  before its stream ends, the bytes written so far, the error every \<^verbatim>\<open>Write\<close> meets (if
  the transport is broken) and how often \<^verbatim>\<open>Close\<close> has been called. Deadlines are not
  modelled. Reads and writes on a closed socket fail.
\<close>

record socket =
  incoming :: "byte list"
  written :: "byte list"
  writeError :: "error option"
  closeCalls :: nat

definition sock_Write :: "socket \<Rightarrow> byte list \<Rightarrow> socket \<times> error option" where
  "sock_Write s bytes =
     (if 0 < closeCalls s then (s, Some (Foreign ''use of closed network connection''))
      else case writeError s of
             Some e \<Rightarrow> (s, Some e)
           | None \<Rightarrow> (s\<lparr>written := written s @ bytes\<rparr>, None))"

definition sock_Close :: "socket \<Rightarrow> socket" where
  "sock_Close s = s\<lparr>closeCalls := closeCalls s + 1\<rparr>"

text \<open>The stream a read on the socket sees: nothing once the socket is closed.\<close>

definition sock_stream :: "socket \<Rightarrow> byte list" where
  "sock_stream s = (if 0 < closeCalls s then [] else incoming s)"

record Greeting =
  Version :: "byte list"
  Auth :: "byte list"

text \<open>\<^verbatim>\<open>time.Duration\<close> is a number of nanoseconds.\<close>

record Options =
  ConnectTimeout :: int
  QueryTimeout :: int
  DefaultSpace :: string
  User :: string
  Password :: string

text \<open>
  \<^verbatim>\<open>Connection\<close>. The registry is a Go map, kept as an association list read through
  \<open>map_of\<close> and written with \<open>AList.update\<close> and \<open>AList.delete\<close>. \<open>closeOnce\<close> is
  whether the \<^verbatim>\<open>sync.Once\<close> has run; \<open>exit\<close> and \<open>closed\<close> are channels nothing is
  ever sent on, so each is only whether it has been closed; \<open>tcpConn\<close> is \<open>None\<close>
  for the nil interface.
\<close>

record 'q connection =
  addr :: string
  requestID :: uint32
  requests :: "(uint32 \<times> 'q request) list"
  requestChan :: "'q request chan"
  closeOnce :: bool
  exit :: bool
  closed :: bool
  tcpConn :: "socket option"
  queryTimeout :: int
  defaultSpace :: string
  connGreeting :: "Greeting option"

section \<open>The ID allocator: \<^verbatim>\<open>nextID\<close>\<close>

definition MaxUint32 :: uint32 where
  "MaxUint32 = 0xFFFFFFFF"

definition nextID :: "'q connection \<Rightarrow> uint32 \<times> 'q connection" where
  "nextID conn =
     (let conn = (if requestID conn = MaxUint32 then conn\<lparr>requestID := 0\<rparr> else conn);
          conn = conn\<lparr>requestID := requestID conn + 1\<rparr>
      in (requestID conn, conn))"

text \<open>\<open>n\<close> consecutive calls of \<open>nextID\<close>: the IDs returned, in call order.\<close>

fun nextID_calls :: "nat \<Rightarrow> 'q connection \<Rightarrow> uint32 list" where
  "nextID_calls 0 conn = []"
| "nextID_calls (Suc n) conn = fst (nextID conn) # nextID_calls n (snd (nextID conn))"

section \<open>The registry: \<^verbatim>\<open>newRequest\<close> and \<^verbatim>\<open>handleReply\<close>\<close>

text \<open>
  \<open>evict\<close> is the first part of \<^verbatim>\<open>newRequest\<close>, after the ID is allocated: a request
  still registered under the new ID is sent a connection error, its channel is closed
  and its entry deleted.
\<close>

definition evict :: "store \<Rightarrow> 'q connection \<Rightarrow> uint32 \<Rightarrow> panic + (store \<times> 'q connection)" where
  "evict h conn rid =
     (case map_of (requests conn) rid of
        None \<Rightarrow> Inr (h, conn)
      | Some old \<Rightarrow>
          and_then (send h (replyChan old) (errorResponse (ConnectionError ''Shred old requests'')))
            (\<lambda>h. and_then (close_chan h (replyChan old))
              (\<lambda>h. Inr (h, conn\<lparr>requests := AList.delete rid (requests conn)\<rparr>))))"

text \<open>
  \<open>newRequest\<close> returns the error of the source, the request with its \<^verbatim>\<open>raw\<close> field
  written (the source writes through the pointer), the store and the connection.
\<close>

definition newRequest ::
  "'q packer \<Rightarrow> store \<Rightarrow> 'q connection \<Rightarrow> 'q request \<Rightarrow>
     panic + (error option \<times> 'q request \<times> store \<times> 'q connection)" where
  "newRequest Pack h conn r =
     (let (rid, conn) = nextID conn in
      and_then (evict h conn rid)
        (\<lambda>(h, conn).
           let (bytes, err) = Pack (query r) rid (defaultSpace conn);
               r = r\<lparr>raw := bytes\<rparr>
           in case err of
                Some e \<Rightarrow>
                  and_then (send h (replyChan r) (errorResponse (QueryError e)))
                    (\<lambda>h. Inr (Some e, r, h, conn))
              | None \<Rightarrow>
                  Inr (None, r, h, conn\<lparr>requests := AList.update rid r (requests conn)\<rparr>)))"

definition handleReply :: "store \<Rightarrow> 'q connection \<Rightarrow> Response \<Rightarrow> panic + (store \<times> 'q connection)" where
  "handleReply h conn res =
     (case map_of (requests conn) (resRequestID res) of
        None \<Rightarrow> Inr (h, conn)
      | Some request \<Rightarrow>
          and_then (send h (replyChan request) res)
            (\<lambda>h. and_then (close_chan h (replyChan request))
              (\<lambda>h. Inr (h, conn\<lparr>requests := AList.delete (resRequestID res) (requests conn)\<rparr>))))"

section \<open>The Router: one iteration of \<^verbatim>\<open>router\<close>\<close>

text \<open>
  What the three stages share: the connection, the store of reply channels, and the two
  queues \<^verbatim>\<open>worker\<close> makes, \<^verbatim>\<open>readChan\<close> and \<^verbatim>\<open>writeChan\<close>. The stop channel of the
  stages is \<^verbatim>\<open>conn.exit\<close>.
\<close>

record 'q pipeline =
  connOf :: "'q connection"
  replyStore :: store
  readChan :: "Response chan"
  writeChan :: "'q request chan"

text \<open>
  The loop of \<^verbatim>\<open>router\<close> runs against the other goroutines, so the model is its body:
  the head of the loop, which sets the local \<^verbatim>\<open>requestChan\<close> to nil or to
  \<^verbatim>\<open>conn.requestChan\<close>, then the \<^verbatim>\<open>select\<close>. A \<^verbatim>\<open>select\<close> proceeds with one of its ready
  cases, chosen by the runtime, and waits while none is ready; a case on a nil channel
  is never ready. The choice is an argument of the model, and \<open>Blocked\<close> is the answer
  when that case cannot proceed in this state.
\<close>

datatype select_case = RequestCase | StopCase | ReadCase

datatype forward_case = WriteCase | StopForwardCase

datatype 'q step =
    Continue "'q pipeline"
  | Break "'q pipeline"
  | Forward "'q request" "'q pipeline"
  | Blocked
  | Panicked panic

definition readChanThreshold :: "'q pipeline \<Rightarrow> nat" where
  "readChanThreshold s = capacity (readChan s) div 10"

definition routerRequestChan :: "'q pipeline \<Rightarrow> 'q request chan option" where
  "routerRequestChan s =
     (if length (queue (readChan s)) > readChanThreshold s then None
      else Some (requestChan (connOf s)))"

definition case_ready :: "'q pipeline \<Rightarrow> select_case \<Rightarrow> bool" where
  "case_ready s c =
     (case c of
        RequestCase \<Rightarrow> (case routerRequestChan s of None \<Rightarrow> False | Some ch \<Rightarrow> recv_ready ch)
      | StopCase \<Rightarrow> exit (connOf s)
      | ReadCase \<Rightarrow> recv_ready (readChan s))"

text \<open>
  The outer \<^verbatim>\<open>select\<close>. A receive from a closed and empty channel gives \<^verbatim>\<open>ok = false\<close>,
  which breaks the loop. After a successful \<open>newRequest\<close> the Router goes on to the
  inner \<^verbatim>\<open>select\<close> with the request in hand: \<open>Forward\<close>.
\<close>

definition router_select :: "'q packer \<Rightarrow> select_case \<Rightarrow> 'q pipeline \<Rightarrow> 'q step" where
  "router_select Pack c s =
     (if \<not> case_ready s c then Blocked
      else case c of
        RequestCase \<Rightarrow>
          (case queue (requestChan (connOf s)) of
             [] \<Rightarrow> Break s
           | r # rest \<Rightarrow>
               (case newRequest Pack (replyStore s)
                       ((connOf s)\<lparr>requestChan := (requestChan (connOf s))\<lparr>queue := rest\<rparr>\<rparr>) r of
                  Inl p \<Rightarrow> Panicked p
                | Inr (err, r, h, conn) \<Rightarrow>
                    (case err of
                       None \<Rightarrow> Forward r (s\<lparr>connOf := conn, replyStore := h\<rparr>)
                     | Some e \<Rightarrow> Continue (s\<lparr>connOf := conn, replyStore := h\<rparr>))))
      | StopCase \<Rightarrow> Break s
      | ReadCase \<Rightarrow>
          (case queue (readChan s) of
             [] \<Rightarrow> Break s
           | res # rest \<Rightarrow>
               (case handleReply (replyStore s) (connOf s) res of
                  Inl p \<Rightarrow> Panicked p
                | Inr (h, conn) \<Rightarrow>
                    Continue (s\<lparr>connOf := conn, replyStore := h,
                                 readChan := (readChan s)\<lparr>queue := rest\<rparr>\<rparr>))))"

text \<open>The inner \<^verbatim>\<open>select\<close>: send the request to \<^verbatim>\<open>writeChan\<close>, or stop.\<close>

definition router_forward :: "forward_case \<Rightarrow> 'q request \<Rightarrow> 'q pipeline \<Rightarrow> 'q step" where
  "router_forward c r s =
     (case c of
        WriteCase \<Rightarrow>
          if chanClosed (writeChan s) then Panicked SendOnClosedChannel
          else if length (queue (writeChan s)) < capacity (writeChan s)
          then Continue (s\<lparr>writeChan := (writeChan s)\<lparr>queue := queue (writeChan s) @ [r]\<rparr>\<rparr>)
          else Blocked
      | StopForwardCase \<Rightarrow> if exit (connOf s) then Break s else Blocked)"

section \<open>The Writer and the Reader\<close>

text \<open>One iteration of \<^verbatim>\<open>writer\<close>; the socket is \<^verbatim>\<open>conn.tcpConn\<close>.\<close>

datatype writer_case = WriteChanCase | WriterStopCase

definition writer_select :: "writer_case \<Rightarrow> 'q pipeline \<Rightarrow> 'q step" where
  "writer_select c s =
     (case c of
        WriteChanCase \<Rightarrow>
          if \<not> recv_ready (writeChan s) then Blocked
          else (case queue (writeChan s) of
                  [] \<Rightarrow> Break s
                | request # rest \<Rightarrow>
                    (case tcpConn (connOf s) of
                       None \<Rightarrow> Panicked NilDereference
                     | Some sock \<Rightarrow>
                         (let (sock, err) = sock_Write sock (raw request);
                              s = s\<lparr>connOf := (connOf s)\<lparr>tcpConn := Some sock\<rparr>,
                                    writeChan := (writeChan s)\<lparr>queue := rest\<rparr>\<rparr>
                          in case err of Some e \<Rightarrow> Break s | None \<Rightarrow> Continue s)))
      | WriterStopCase \<Rightarrow> if exit (connOf s) then Break s else Blocked)"

text \<open>
  \<^verbatim>\<open>reader\<close>. The variables \<^verbatim>\<open>bodyLen\<close> and \<^verbatim>\<open>requestID\<close> are declared before the loop and
  never assigned (the two assignments are commented out), so they are 0; \<^verbatim>\<open>response\<close>
  is set to nil in every iteration, and the write to \<^verbatim>\<open>response.requestID\<close> goes
  through that nil pointer. The function returns the stream it leaves and \<^verbatim>\<open>readChan\<close>
  when the loop breaks.
\<close>

datatype 'a reader_step = ReaderContinue 'a | ReaderBreak 'a | ReaderPanic panic

definition reader_body ::
  "byte list \<times> Response chan \<Rightarrow> (byte list \<times> Response chan) reader_step" where
  "reader_body st =
     (let (stream, readChan) = st; headerLen = 12; bodyLen = 0; requestID = 0 in
      case ReadAtLeast stream headerLen of
        Inl err \<Rightarrow> ReaderBreak (stream, readChan)
      | Inr (header, stream) \<Rightarrow>
          (case ReadAtLeast stream bodyLen of
             Inl err \<Rightarrow> ReaderBreak (stream, readChan)
           | Inr (body, stream) \<Rightarrow>
               (let response = (None :: Response option) in
                case response of
                  None \<Rightarrow> ReaderPanic NilDereference
                | Some res \<Rightarrow>
                    ReaderContinue
                      (stream,
                       readChan\<lparr>queue := queue readChan @ [res\<lparr>resRequestID := requestID\<rparr>]\<rparr>))))"

function reader :: "byte list \<times> Response chan \<Rightarrow> panic + (byte list \<times> Response chan)" where
  "reader st =
     (case reader_body st of
        ReaderContinue st' \<Rightarrow> reader st'
      | ReaderBreak st' \<Rightarrow> Inr st'
      | ReaderPanic p \<Rightarrow> Inl p)"
  by pat_completeness auto
termination
  by (relation "measure (\<lambda>st. length (fst st))")
    (auto simp: reader_body_def ReadAtLeast_def Let_def split: prod.splits if_splits sum.splits)

declare reader.simps [simp del]

section \<open>\<^verbatim>\<open>Connect\<close>\<close>

text \<open>
  \<^verbatim>\<open>strings.Split(s, sep)\<close> for a one-character separator: the pieces between the
  separators, at least one piece.
\<close>

fun Split :: "char \<Rightarrow> string \<Rightarrow> string list" where
  "Split sep [] = [[]]"
| "Split sep (c # cs) =
     (if c = sep then [] # Split sep cs
      else (case Split sep cs of [] \<Rightarrow> [[c]] | p # ps \<Rightarrow> (c # p) # ps))"

text \<open>
  The collaborators of \<^verbatim>\<open>Connect\<close>, declared outside connection.go, are parameters:
  \<open>dial\<close> is \<^verbatim>\<open>net.DialTimeout\<close> on the remote address (an error, or the socket);
  \<open>authPack user password salt requestID space\<close> is \<^verbatim>\<open>Pack\<close> of the \<^verbatim>\<open>Auth\<close> value,
  returning bytes and an error; \<open>decodeResponse\<close> decodes a reply body.
\<close>

type_synonym dialer = "string \<Rightarrow> error + socket"
type_synonym auth_packer = "string \<Rightarrow> string \<Rightarrow> byte list \<Rightarrow> uint32 \<Rightarrow> string \<Rightarrow> byte list \<times> error option"
type_synonym decoder = "byte list \<Rightarrow> error + Response"

text \<open>
  What a call of \<^verbatim>\<open>Connect\<close> leaves: the two results, the \<^verbatim>\<open>Options\<close> value the
  argument points to (a new zero value when the argument is nil), which \<^verbatim>\<open>Connect\<close>
  writes to, and the socket it dialled.
\<close>

record 'q connect_result =
  resultConn :: "'q connection option"
  resultErr :: "error option"
  callerOptions :: Options
  resultSocket :: "socket option"

definition Second :: int where
  "Second = 1000000000"

definition zeroOptions :: Options where
  "zeroOptions = \<lparr>ConnectTimeout = 0, QueryTimeout = 0, DefaultSpace = [], User = [], Password = []\<rparr>"

text \<open>
  The deferred function: on an error with a socket open, the socket is closed and no
  connection is returned.
\<close>

definition connect_failed :: "Options \<Rightarrow> socket \<Rightarrow> error \<Rightarrow> 'q connect_result" where
  "connect_failed options sock err =
     \<lparr>resultConn = None, resultErr = Some err, callerOptions = options,
      resultSocket = Some (sock_Close sock)\<rparr>"

text \<open>
  The block under \<^verbatim>\<open>if options.User != ""\<close>. \<open>err\<close> is bound first to the error of
  \<open>authPack\<close> and then, before it is read, to the error of the write.
\<close>

definition connect_auth ::
  "auth_packer \<Rightarrow> decoder \<Rightarrow> Options \<Rightarrow> 'q connection \<Rightarrow> socket \<Rightarrow> Greeting \<Rightarrow> 'q connect_result" where
  "connect_auth authPack decodeResponse options conn sock greeting =
     (let (authRequestID, conn) = nextID conn;
          (authRaw, err) = authPack (User options) (Password options) (Auth greeting) authRequestID [];
          (sock, err) = sock_Write sock authRaw
      in case err of
           Some e \<Rightarrow> connect_failed options sock e
         | None \<Rightarrow>
             (case readMessage (sock_stream sock) of
                Inl e \<Rightarrow> connect_failed options sock e
              | Inr (authReplyBody, rest) \<Rightarrow>
                  (let sock = sock\<lparr>incoming := rest\<rparr> in
                   case decodeResponse authReplyBody of
                     Inl e \<Rightarrow> connect_failed options sock e
                   | Inr authResponse \<Rightarrow>
                       if resRequestID authResponse \<noteq> authRequestID
                       then connect_failed options sock (ErrorsNew ''Bad auth responseID'')
                       else (case Error authResponse of
                               Some e \<Rightarrow> connect_failed options sock e
                             | None \<Rightarrow>
                                 \<lparr>resultConn = Some (conn\<lparr>tcpConn := Some sock\<rparr>),
                                  resultErr = None, callerOptions = options,
                                  resultSocket = Some sock\<rparr>))))"

definition Connect ::
  "dialer \<Rightarrow> auth_packer \<Rightarrow> decoder \<Rightarrow> string \<Rightarrow> Options option \<Rightarrow> 'q connect_result" where
  "Connect dial authPack decodeResponse address optionsArg =
     (let conn = \<lparr>addr = address, requestID = 0, requests = [], requestChan = make_chan 16,
                  closeOnce = False, exit = False, closed = False, tcpConn = None,
                  queryTimeout = 0, defaultSpace = [], connGreeting = None\<rparr>;
          options = (case optionsArg of None \<Rightarrow> zeroOptions | Some given \<Rightarrow> given);
          opts = options;
          opts = (if ConnectTimeout opts = 0 then opts\<lparr>ConnectTimeout := Second\<rparr> else opts);
          opts = (if QueryTimeout opts = 0 then opts\<lparr>QueryTimeout := Second\<rparr> else opts);
          splittedAddr = Split CHR ''/'' address;
          remoteAddr = splittedAddr ! 0
      in if DefaultSpace opts = [] \<and> 1 < length splittedAddr \<and> splittedAddr ! 1 = []
         then \<lparr>resultConn = None,
               resultErr = Some (ErrorsNew (''Wrong space: '' @ splittedAddr ! 1)),
               callerOptions = options, resultSocket = None\<rparr>
         else
           (let options = (if DefaultSpace opts = [] \<and> 1 < length splittedAddr
                           then options\<lparr>DefaultSpace := splittedAddr ! 1\<rparr> else options);
                conn = conn\<lparr>queryTimeout := QueryTimeout opts, defaultSpace := DefaultSpace opts\<rparr>
            in case dial remoteAddr of
                 Inl err \<Rightarrow>
                   \<lparr>resultConn = None, resultErr = Some err, callerOptions = options,
                    resultSocket = None\<rparr>
               | Inr sock \<Rightarrow>
                   (case ReadAtLeast (sock_stream sock) 128 of
                      Inl err \<Rightarrow> connect_failed options sock err
                    | Inr (greeting, rest) \<Rightarrow>
                        (let sock = sock\<lparr>incoming := rest\<rparr>;
                             g = \<lparr>Version = take 64 greeting, Auth = take 44 (drop 64 greeting)\<rparr>;
                             conn = conn\<lparr>tcpConn := Some sock, connGreeting := Some g\<rparr>
                         in if User options \<noteq> []
                            then connect_auth authPack decodeResponse options conn sock g
                            else \<lparr>resultConn = Some conn, resultErr = None,
                                  callerOptions = options, resultSocket = Some sock\<rparr>))))"

section \<open>\<^verbatim>\<open>stop\<close>, \<^verbatim>\<open>Close\<close> and the teardown of \<^verbatim>\<open>worker\<close>\<close>

text \<open>
  \<^verbatim>\<open>stop\<close> runs its function under the \<^verbatim>\<open>sync.Once\<close>, which serialises concurrent
  callers: a call is one atomic step. The function closes \<^verbatim>\<open>conn.exit\<close> (closing it a
  second time would panic) and calls \<^verbatim>\<open>Close\<close> on the socket.
\<close>

definition stop :: "'q connection \<Rightarrow> panic + 'q connection" where
  "stop conn =
     (if closeOnce conn then Inr conn
      else if exit conn then Inl CloseOfClosedChannel
      else (case tcpConn conn of
              None \<Rightarrow> Inl NilDereference
            | Some sock \<Rightarrow>
                Inr (conn\<lparr>exit := True, tcpConn := Some (sock_Close sock), closeOnce := True\<rparr>)))"

text \<open>
  \<^verbatim>\<open>Close\<close> is \<open>stop\<close> followed by a receive from \<^verbatim>\<open>conn.closed\<close>. Nothing is ever sent
  on that channel, so the receive proceeds exactly when the channel has been closed.
\<close>

definition Close_can_return :: "'q connection \<Rightarrow> bool" where
  "Close_can_return conn = closed conn"

text \<open>
  The end of \<^verbatim>\<open>worker\<close>, after \<^verbatim>\<open>wg.Wait()\<close>. The first loop ranges over the registry
  (in the order of the association list, which has one entry for each ID, as
  \<open>AList.update\<close> keeps it) and deletes each entry it has failed; the second takes
  requests from
  \<^verbatim>\<open>conn.requestChan\<close> until none is queued (a receive from a closed, empty channel would
  yield nil, and the send through it a nil dereference); then \<^verbatim>\<open>conn.closed\<close> is closed.
\<close>

fun failPending ::
  "store \<Rightarrow> 'q connection \<Rightarrow> (uint32 \<times> 'q request) list \<Rightarrow> panic + (store \<times> 'q connection)" where
  "failPending h conn [] = Inr (h, conn)"
| "failPending h conn ((rid, req) # entries) =
     and_then (send h (replyChan req) (errorResponse ConnectionClosed))
       (\<lambda>h. and_then (close_chan h (replyChan req))
         (\<lambda>h. failPending h (conn\<lparr>requests := AList.delete rid (requests conn)\<rparr>) entries))"

fun failQueued :: "store \<Rightarrow> 'q request list \<Rightarrow> panic + store" where
  "failQueued h [] = Inr h"
| "failQueued h (req # reqs) =
     and_then (send h (replyChan req) (errorResponse ConnectionClosed))
       (\<lambda>h. and_then (close_chan h (replyChan req)) (\<lambda>h. failQueued h reqs))"

definition worker_teardown :: "store \<Rightarrow> 'q connection \<Rightarrow> panic + (store \<times> 'q connection)" where
  "worker_teardown h conn =
     and_then (failPending h conn (requests conn))
       (\<lambda>(h, conn).
          and_then (failQueued h (queue (requestChan conn)))
            (\<lambda>h. if chanClosed (requestChan conn) then Inl NilDereference
                 else if closed conn then Inl CloseOfClosedChannel
                 else Inr (h, conn\<lparr>requestChan := (requestChan conn)\<lparr>queue := []\<rparr>,
                                   closed := True\<rparr>)))"

section \<open>The goroutines of a connection, interleaved\<close>

text \<open>
  \<^verbatim>\<open>worker\<close> starts three goroutines, each running its stage, then \<open>stop\<close>, then
  \<^verbatim>\<open>wg.Done()\<close>, and waits for all three before the teardown. A stage is \<open>Running\<close> its
  loop, has \<open>Returned\<close> from it, has \<open>Stopped\<close> the connection, or is \<open>Finished\<close>
  (after \<^verbatim>\<open>wg.Done()\<close>).
\<close>

datatype stage = Router | Writer | Reader

datatype status = Running | Returned | Stopped | Finished

text \<open>
  The state of the whole connection: the pipeline, the status of each stage, the
  counter of the \<^verbatim>\<open>WaitGroup\<close>, the request the Router holds while it waits in its inner
  \<^verbatim>\<open>select\<close>, and the calls of \<^verbatim>\<open>Close\<close> that have run \<open>stop\<close> and wait on
  \<^verbatim>\<open>conn.closed\<close>, and those that have returned.
\<close>

record 'q world =
  pipe :: "'q pipeline"
  stages :: "stage \<Rightarrow> status"
  wg :: nat
  forwarding :: "'q request option"
  closeWaiting :: nat
  closeReturned :: nat

text \<open>
  One atomic step of one goroutine. \<open>Submit\<close> is a caller's send to
  \<^verbatim>\<open>conn.requestChan\<close> (the sending code is outside this file); \<open>CloseCall\<close> is the
  \<open>stop\<close> of a call of \<^verbatim>\<open>Close\<close> and \<open>CloseReturn\<close> the completion of its receive;
  \<open>Teardown\<close> is the end of \<^verbatim>\<open>worker\<close>, enabled when the \<^verbatim>\<open>WaitGroup\<close> is at zero.
\<close>

datatype 'q event =
    Submit "'q request"
  | RouterSelect select_case
  | RouterForward forward_case
  | WriterSelect writer_case
  | ReaderRun
  | StageStop stage
  | StageDone stage
  | Teardown
  | CloseCall
  | CloseReturn

datatype 'q outcome = Next "'q world" | Disabled | Crash panic

text \<open>What the result of a stage's \<^verbatim>\<open>select\<close> does to the state of the connection.\<close>

definition finish_select :: "stage \<Rightarrow> 'q step \<Rightarrow> 'q world \<Rightarrow> 'q outcome" where
  "finish_select st r w =
     (case r of
        Continue p \<Rightarrow> Next (w\<lparr>pipe := p\<rparr>)
      | Break p \<Rightarrow> Next (w\<lparr>pipe := p, stages := (stages w)(st := Returned)\<rparr>)
      | Forward req p \<Rightarrow> Next (w\<lparr>pipe := p, forwarding := Some req\<rparr>)
      | Blocked \<Rightarrow> Disabled
      | Panicked p \<Rightarrow> Crash p)"

definition with_conn :: "'q world \<Rightarrow> 'q connection \<Rightarrow> 'q world" where
  "with_conn w conn = w\<lparr>pipe := (pipe w)\<lparr>connOf := conn\<rparr>\<rparr>"

definition step :: "'q packer \<Rightarrow> 'q event \<Rightarrow> 'q world \<Rightarrow> 'q outcome" where
  "step Pack e w =
     (let conn = connOf (pipe w) in
      case e of
        Submit r \<Rightarrow>
          if chanClosed (requestChan conn) then Crash SendOnClosedChannel
          else if length (queue (requestChan conn)) < capacity (requestChan conn)
          then Next (with_conn w
                 (conn\<lparr>requestChan := (requestChan conn)\<lparr>queue := queue (requestChan conn) @ [r]\<rparr>\<rparr>))
          else Disabled
      | RouterSelect c \<Rightarrow>
          if stages w Router = Running \<and> forwarding w = None
          then finish_select Router (router_select Pack c (pipe w)) w
          else Disabled
      | RouterForward c \<Rightarrow>
          (case forwarding w of
             None \<Rightarrow> Disabled
           | Some r \<Rightarrow>
               if stages w Router = Running
               then finish_select Router (router_forward c r (pipe w)) (w\<lparr>forwarding := None\<rparr>)
               else Disabled)
      | WriterSelect c \<Rightarrow>
          if stages w Writer = Running
          then finish_select Writer (writer_select c (pipe w)) w
          else Disabled
      | ReaderRun \<Rightarrow>
          if stages w Reader = Running
          then (case tcpConn conn of
                  None \<Rightarrow> Crash NilDereference
                | Some sock \<Rightarrow>
                    (case reader (sock_stream sock, readChan (pipe w)) of
                       Inl p \<Rightarrow> Crash p
                     | Inr (stream, rc) \<Rightarrow>
                         Next (w\<lparr>pipe := (pipe w)
                                   \<lparr>connOf := conn\<lparr>tcpConn := Some (sock\<lparr>incoming := stream\<rparr>)\<rparr>,
                                    readChan := rc\<rparr>,
                                 stages := (stages w)(Reader := Returned)\<rparr>)))
          else Disabled
      | StageStop st \<Rightarrow>
          if stages w st = Returned
          then (case stop conn of
                  Inl p \<Rightarrow> Crash p
                | Inr conn \<Rightarrow> Next ((with_conn w conn)\<lparr>stages := (stages w)(st := Stopped)\<rparr>))
          else Disabled
      | StageDone st \<Rightarrow>
          if stages w st = Stopped
          then (if wg w = 0 then Crash NegativeWaitGroupCounter
                else Next (w\<lparr>wg := wg w - 1, stages := (stages w)(st := Finished)\<rparr>))
          else Disabled
      | Teardown \<Rightarrow>
          if wg w = 0 \<and> \<not> closed conn
          then (case worker_teardown (replyStore (pipe w)) conn of
                  Inl p \<Rightarrow> Crash p
                | Inr (h, conn) \<Rightarrow> Next (w\<lparr>pipe := (pipe w)\<lparr>connOf := conn, replyStore := h\<rparr>\<rparr>))
          else Disabled
      | CloseCall \<Rightarrow>
          (case stop conn of
             Inl p \<Rightarrow> Crash p
           | Inr conn \<Rightarrow> Next ((with_conn w conn)\<lparr>closeWaiting := closeWaiting w + 1\<rparr>))
      | CloseReturn \<Rightarrow>
          if 0 < closeWaiting w \<and> Close_can_return conn
          then Next (w\<lparr>closeWaiting := closeWaiting w - 1, closeReturned := closeReturned w + 1\<rparr>)
          else Disabled)"

text \<open>A schedule: the steps taken, in order. It stops at a step that is not enabled.\<close>

fun run :: "'q packer \<Rightarrow> 'q event list \<Rightarrow> 'q world \<Rightarrow> 'q outcome" where
  "run Pack [] w = Next w"
| "run Pack (e # es) w =
     (case step Pack e w of
        Next w' \<Rightarrow> run Pack es w'
      | Disabled \<Rightarrow> Disabled
      | Crash p \<Rightarrow> Crash p)"

text \<open>
  The state \<^verbatim>\<open>worker\<close> starts from: both queues made with capacity 256, the
  \<^verbatim>\<open>WaitGroup\<close> at 3, the three stages running.
\<close>

definition worker_start :: "store \<Rightarrow> 'q connection \<Rightarrow> 'q world" where
  "worker_start h conn =
     \<lparr>pipe = \<lparr>connOf = conn, replyStore = h, readChan = make_chan 256, writeChan = make_chan 256\<rparr>,
      stages = (\<lambda>st. Running), wg = 3, forwarding = None, closeWaiting = 0, closeReturned = 0\<rparr>"

text \<open>
  A connection as a successful \<^verbatim>\<open>Connect\<close> hands it to \<^verbatim>\<open>worker\<close>: nothing closed yet,
  and a socket on which \<^verbatim>\<open>Close\<close> has not been called.
\<close>

definition opened :: "'q connection \<Rightarrow> bool" where
  "opened conn =
     (\<not> closeOnce conn \<and> \<not> exit conn \<and> \<not> closed conn \<and>
      (case tcpConn conn of None \<Rightarrow> False | Some sock \<Rightarrow> closeCalls sock = 0))"

text \<open>
  The lifecycle state of a connection: whether the \<^verbatim>\<open>sync.Once\<close> has run, whether
  \<^verbatim>\<open>exit\<close> and \<^verbatim>\<open>closed\<close> have been closed, and how often the socket has been closed.
\<close>

definition lifecycle :: "'q connection \<Rightarrow> bool \<times> bool \<times> bool \<times> nat option" where
  "lifecycle conn = (closeOnce conn, exit conn, closed conn, map_option closeCalls (tcpConn conn))"

text \<open>
  What holds in every state the goroutines can reach: \<^verbatim>\<open>exit\<close> is closed and the socket
  closed, once, exactly when the \<^verbatim>\<open>sync.Once\<close> has run; a stage that is past its \<open>stop\<close>
  has run it; the \<^verbatim>\<open>WaitGroup\<close> counts the stages not yet finished; \<^verbatim>\<open>closed\<close> is closed
  only with the \<^verbatim>\<open>WaitGroup\<close> at zero and the registry empty; a call of \<^verbatim>\<open>Close\<close> has
  returned only if \<^verbatim>\<open>closed\<close> is closed, and has run \<open>stop\<close> in any case.
\<close>

definition unfinished :: "status \<Rightarrow> nat" where
  "unfinished st = (if st = Finished then 0 else 1)"

definition lifecycle_inv :: "'q world \<Rightarrow> bool" where
  "lifecycle_inv w =
     (let conn = connOf (pipe w) in
      closeOnce conn = exit conn \<and>
      map_option closeCalls (tcpConn conn) = Some (if closeOnce conn then 1 else 0) \<and>
      (\<forall>st. stages w st = Stopped \<or> stages w st = Finished \<longrightarrow> closeOnce conn) \<and>
      (0 < closeWaiting w + closeReturned w \<longrightarrow> closeOnce conn) \<and>
      wg w = unfinished (stages w Router) + unfinished (stages w Writer) +
             unfinished (stages w Reader) \<and>
      (closed conn \<longrightarrow> wg w = 0 \<and> requests conn = []) \<and>
      (0 < closeReturned w \<longrightarrow> closed conn))"

section \<open>Concrete inputs\<close>

text \<open>
  A socket whose peer sends nothing more, a new connection on it (counter 0, empty
  registry, nothing closed), and one whose counter is about to wrap.
\<close>

definition quietSocket :: socket where
  "quietSocket = \<lparr>incoming = [], written = [], writeError = None, closeCalls = 0\<rparr>"

definition freshConnection :: "nat connection" where
  "freshConnection =
     \<lparr>addr = ''db:3301'', requestID = 0, requests = [], requestChan = make_chan 16,
      closeOnce = False, exit = False, closed = False, tcpConn = Some quietSocket,
      queryTimeout = 1000000000, defaultSpace = [], connGreeting = None\<rparr>"

definition wrappingConnection :: "nat connection" where
  "wrappingConnection = freshConnection\<lparr>requestID := 0xFFFFFFFE\<rparr>"

text \<open>
  A store of open, empty reply channels; a packer that fails on the query 0 and
  otherwise returns four bytes; a request that cannot be packed, one that can, and a
  connection whose next ID, 1, is still registered for an older request.
\<close>

definition emptyStore :: store where
  "emptyStore = (\<lambda>c. \<lparr>received = [], isClosed = False\<rparr>)"

definition examplePack :: "nat packer" where
  "examplePack q rid space =
     (if q = 0 then ([], Some (Foreign ''cannot pack'')) else ([1, 2, 3, 4], None))"

definition failingRequest :: "nat request" where
  "failingRequest = \<lparr>query = 0, replyChan = 7, raw = []\<rparr>"

definition goodRequest :: "nat request" where
  "goodRequest = \<lparr>query = 1, replyChan = 8, raw = []\<rparr>"

definition oldRequest :: "nat request" where
  "oldRequest = \<lparr>query = 1, replyChan = 5, raw = [1, 2, 3, 4]\<rparr>"

definition collidingConnection :: "nat connection" where
  "collidingConnection = freshConnection\<lparr>requestID := MaxUint32, requests := [(1, oldRequest)]\<rparr>"

text \<open>
  The pipeline \<^verbatim>\<open>worker\<close> starts with, and the same with one request submitted: one
  that cannot be packed, and one that can.
\<close>

definition startPipeline :: "nat pipeline" where
  "startPipeline =
     \<lparr>connOf = freshConnection, replyStore = emptyStore,
      readChan = make_chan 256, writeChan = make_chan 256\<rparr>"

definition submitted :: "nat request \<Rightarrow> nat pipeline \<Rightarrow> nat pipeline" where
  "submitted r s =
     s\<lparr>connOf := (connOf s)\<lparr>requestChan := (requestChan (connOf s))\<lparr>queue := [r]\<rparr>\<rparr>\<rparr>"

text \<open>
  A server that sends the 128-byte greeting, and one that sends the greeting and then a
  reply frame with a one-byte body; a dialer that reaches each; a decoder that reads
  every reply as a success for ID 1; an authentication packer that fails, and one that
  returns two bytes; options that name a user.
\<close>

definition greetingSocket :: socket where
  "greetingSocket = quietSocket\<lparr>incoming := replicate 128 0\<rparr>"

definition authSocket :: socket where
  "authSocket = quietSocket\<lparr>incoming := replicate 128 0 @ [0xce, 0, 0, 0, 1, 0x80]\<rparr>"

definition exampleDial :: dialer where
  "exampleDial a =
     (if a = ''db:3301'' then Inr greetingSocket
      else if a = ''auth:3301'' then Inr authSocket
      else Inl (Foreign ''no route to host''))"

definition okDecode :: decoder where
  "okDecode body = Inr \<lparr>resRequestID = 1, Data = [], Error = None\<rparr>"

definition failingAuthPack :: auth_packer where
  "failingAuthPack user password salt rid space = ([], Some (Foreign ''cannot pack auth''))"

definition exampleAuthPack :: auth_packer where
  "exampleAuthPack user password salt rid space = ([1, 2], None)"

definition userOptions :: Options where
  "userOptions = zeroOptions\<lparr>User := ''admin'', Password := ''secret''\<rparr>"

text \<open>
  A pipeline with one submission waiting and \<open>n\<close> decoded responses queued (none of
  them for a registered ID).
\<close>

definition loadedPipeline :: "nat \<Rightarrow> nat pipeline" where
  "loadedPipeline n =
     (submitted goodRequest startPipeline)
       \<lparr>readChan := (make_chan 256)\<lparr>queue := replicate n (errorResponse EOF)\<rparr>\<rparr>"

text \<open>
  A connection with one request pending under ID 1, and a schedule on it: two calls of
  \<^verbatim>\<open>Close\<close>, the three stages leaving their loops, stopping and finishing, the teardown,
  and the two calls returning.
\<close>

definition pendingConnection :: "nat connection" where
  "pendingConnection = freshConnection\<lparr>requestID := 1, requests := [(1, oldRequest)]\<rparr>"

definition closeTwice :: "nat event list" where
  "closeTwice =
     [CloseCall, CloseCall, RouterSelect StopCase, WriterSelect WriterStopCase, ReaderRun,
      StageStop Router, StageStop Writer, StageStop Reader,
      StageDone Router, StageDone Writer, StageDone Reader,
      Teardown, CloseReturn, CloseReturn]"

text \<open>
  A schedule in which a request that cannot be packed is submitted and taken by the
  Router before the same shutdown.
\<close>

definition failThenClose :: "nat event list" where
  "failThenClose = [Submit failingRequest, RouterSelect RequestCase] @ closeTwice"

section \<open>Properties of the framing\<close>

lemma unat_drop_bit_div: "unat (drop_bit k (l::uint32)) = unat l div 2 ^ k"
  by (simp add: unat_drop_bit_eq drop_bit_eq_div [where ?'a = nat])

lemma unat_ucast_byte: "unat (ucast (l::uint32) :: byte) = unat l mod 256"
  by (simp add: unsigned_ucast_eq take_bit_eq_mod)

lemma be_decode_nat:
  fixes n :: nat
  shows "n div 16777216 mod 256 * 16777216 + n div 65536 mod 256 * 65536 +
         n div 256 mod 256 * 256 + n mod 256 = n mod 4294967296"
proof -
  have a: "n div 16777216 = (n div 4294967296) * 256 + n div 16777216 mod 256"
    using div_mult_mod_eq [of "n div 16777216" 256] div_mult2_eq [of n 16777216 256] by simp
  have b: "n div 65536 = (n div 16777216) * 256 + n div 65536 mod 256"
    using div_mult_mod_eq [of "n div 65536" 256] div_mult2_eq [of n 65536 256] by simp
  have c: "n div 256 = (n div 65536) * 256 + n div 256 mod 256"
    using div_mult_mod_eq [of "n div 256" 256] div_mult2_eq [of n 256 256] by simp
  have d: "n = (n div 256) * 256 + n mod 256"
    by simp
  have e: "n = (n div 4294967296) * 4294967296 + n mod 4294967296"
    by simp
  show ?thesis using a b c d e by linarith
qed

lemma unat_uint32_less: "unat (l::uint32) < 4294967296"
  using unsigned_less [of l, where ?'a = nat] by simp

lemma bodyLength_be32: "bodyLength (m # be32 l) = unat l"
proof -
  have "unat l mod 4294967296 = unat l"
    using unat_uint32_less [of l] by simp
  then show ?thesis
    using be_decode_nat [of "unat l"]
    by (simp add: bodyLength_def be32_def unat_ucast_byte unat_drop_bit_div push_bit_eq_mult)
qed

lemma packIproto_eq:
  "packIproto kc ks c i body =
     0xce # be32 (of_nat (9 + length body)) @ [0x82, kc, c, ks, 0xce] @ be32 i @ body"
  by (simp add: packIproto_def be32_def Let_def)

lemma length_be32: "length (be32 l) = 4"
  by (simp add: be32_def)

lemma take5_frame: "take 5 (m # be32 l @ xs) = m # be32 l"
  by (simp add: be32_def)

lemma drop5_frame: "drop 5 (m # be32 l @ xs) = xs"
  by (simp add: be32_def)

lemma readMessage_frame:
  assumes "l \<noteq> 0" "unat l = length body"
  shows "readMessage (0xce # be32 l @ body @ rest) = Inr (body, rest)"
proof -
  have "unat l \<noteq> 0" using assms(1) by (simp add: unat_eq_0)
  then show ?thesis using assms(2)
    by (simp add: readMessage_def ReadAtLeast_def PacketLengthBytes_def take5_frame drop5_frame
        length_be32 bodyLength_be32)
qed

lemma uint32_wraps_to_0: "(4294967296 :: uint32) = 0"
  by simp

lemma unat_frame_length:
  assumes "length body + 9 < 2 ^ 32"
  shows "unat (of_nat (9 + length body) :: uint32) = 9 + length body"
proof -
  have "unat (of_nat (9 + length body) :: uint32) = (9 + length body) mod 2 ^ LENGTH(32)"
    by (rule unat_of_nat)
  also have "\<dots> = 9 + length body" using assms by simp
  finally show ?thesis .
qed

lemma readMessage_wrong_marker:
  assumes "5 \<le> length r" "r ! 0 \<noteq> 0xce"
  shows "readMessage r = Inl (ErrorsNew ''Wrong reponse header'')"
  using assms by (simp add: readMessage_def ReadAtLeast_def PacketLengthBytes_def)

lemma readMessage_zero_length:
  assumes "5 \<le> length r" "r ! 0 = 0xce" "bodyLength (take 5 r) = 0"
  shows "readMessage r = Inl (ErrorsNew ''Response should not be 0 length'')"
  using assms by (simp add: readMessage_def ReadAtLeast_def PacketLengthBytes_def)

lemma readMessage_short:
  assumes "length r < 5"
  shows "readMessage r = Inl (if r = [] then EOF else ErrUnexpectedEOF)"
  using assms by (simp add: readMessage_def ReadAtLeast_def PacketLengthBytes_def)

text \<open>
  Claim C6, as amended. For every request code, correlation ID and body whose length
  plus the nine bytes of the header map is below \<open>2 ^ 32\<close>, \<open>readMessage\<close> applied to
  the bytes of \<open>packIproto\<close> (followed by whatever the stream holds next) succeeds and
  returns exactly the bytes after the 5-byte length prefix, the header map and then the
  body, leaving the rest of the stream; the prefix starts with \<open>0xCE\<close> and its length
  field equals the number of those bytes. \<open>readMessage\<close> rejects every input of five
  bytes or more whose first byte is not \<open>0xCE\<close>, and every one whose length field is
  zero; a shorter input is rejected as an early end of the stream.
\<close>

theorem packIproto_readMessage_roundtrip:
  assumes "length body + 9 < 2 ^ 32"
  shows "readMessage (packIproto kc ks code rid body @ rest) =
           Inr (drop 5 (packIproto kc ks code rid body), rest) \<and>
         drop 5 (packIproto kc ks code rid body) = [0x82, kc, code, ks, 0xce] @ be32 rid @ body \<and>
         (packIproto kc ks code rid body) ! 0 = 0xce \<and>
         bodyLength (take 5 (packIproto kc ks code rid body)) =
           length (drop 5 (packIproto kc ks code rid body)) \<and>
         (\<forall>r. 5 \<le> length r \<and> r ! 0 \<noteq> 0xce \<longrightarrow>
              readMessage r = Inl (ErrorsNew ''Wrong reponse header'')) \<and>
         (\<forall>r. 5 \<le> length r \<and> r ! 0 = 0xce \<and> bodyLength (take 5 r) = 0 \<longrightarrow>
              readMessage r = Inl (ErrorsNew ''Response should not be 0 length'')) \<and>
         (\<forall>r. length r < 5 \<longrightarrow> readMessage r = Inl (if r = [] then EOF else ErrUnexpectedEOF))"
proof -
  let ?l = "of_nat (9 + length body) :: uint32"
  let ?payload = "[0x82, kc, code, ks, 0xce] @ be32 rid @ body"
  have len: "unat ?l = length ?payload"
    using unat_frame_length [OF assms] by (simp add: length_be32)
  then have nz: "?l \<noteq> 0" by (metis length_0_conv append_is_Nil_conv list.distinct(1) unat_eq_0 unsigned_0)
  have frame: "packIproto kc ks code rid body = 0xce # be32 ?l @ ?payload"
    by (simp add: packIproto_eq)
  have d: "drop 5 (packIproto kc ks code rid body) = ?payload"
    unfolding frame by (rule drop5_frame)
  have t: "take 5 (packIproto kc ks code rid body) = 0xce # be32 ?l"
    unfolding frame by (rule take5_frame)
  have "readMessage (0xce # be32 ?l @ ?payload @ rest) = Inr (?payload, rest)"
    using nz len by (rule readMessage_frame)
  then have rt: "readMessage (packIproto kc ks code rid body @ rest) =
           Inr (drop 5 (packIproto kc ks code rid body), rest)"
    unfolding d unfolding frame by simp
  have bl: "bodyLength (take 5 (packIproto kc ks code rid body)) =
           length (drop 5 (packIproto kc ks code rid body))"
    unfolding t d bodyLength_be32 by (rule len)
  have m: "(packIproto kc ks code rid body) ! 0 = 0xce"
    unfolding frame by simp
  from rt d m bl readMessage_wrong_marker readMessage_zero_length readMessage_short
  show ?thesis by blast
qed

text \<open>
  The theorem at a three-byte body with ID 7, a wrong marker, a zero length field and a
  stream of two bytes.
\<close>

theorem packIproto_readMessage_roundtrip_witness:
  "length [1, 2, 3 :: byte] + 9 < 2 ^ 32 \<and>
   readMessage (packIproto 0 1 1 7 [1, 2, 3] @ [9]) = Inr ([0x82, 0, 1, 1, 0xce, 0, 0, 0, 7, 1, 2, 3], [9]) \<and>
   bodyLength (take 5 (packIproto 0 1 1 7 [1, 2, 3])) = 12 \<and>
   readMessage [0xcf, 0, 0, 0, 1, 5] = Inl (ErrorsNew ''Wrong reponse header'') \<and>
   readMessage [0xce, 0, 0, 0, 0, 5] = Inl (ErrorsNew ''Response should not be 0 length'') \<and>
   readMessage [0xce, 0] = Inl ErrUnexpectedEOF"
proof -
  have h: "length [1, 2, 3 :: byte] + 9 < 2 ^ 32" by simp
  note T = packIproto_readMessage_roundtrip [OF h, of 0 1 1 7 "[9]"]
  have i: "be32 7 = [0, 0, 0, 7]" by (simp add: be32_def drop_bit_eq_div)
  from T have d: "drop 5 (packIproto 0 1 1 7 [1, 2, 3]) = [0x82, 0, 1, 1, 0xce] @ be32 7 @ [1, 2, 3]"
    by blast
  from T have "readMessage (packIproto 0 1 1 7 [1, 2, 3] @ [9]) = Inr (drop 5 (packIproto 0 1 1 7 [1, 2, 3]), [9])"
    by blast
  then have c1: "readMessage (packIproto 0 1 1 7 [1, 2, 3] @ [9]) = Inr ([0x82, 0, 1, 1, 0xce, 0, 0, 0, 7, 1, 2, 3], [9])"
    unfolding d i by simp
  from T have "bodyLength (take 5 (packIproto 0 1 1 7 [1, 2, 3])) = length (drop 5 (packIproto 0 1 1 7 [1, 2, 3]))"
    by blast
  then have c2: "bodyLength (take 5 (packIproto 0 1 1 7 [1, 2, 3])) = 12"
    unfolding d i by simp
  from T have "5 \<le> length [0xcf, 0, 0, 0, 1, 5 :: byte] \<and> [0xcf, 0, 0, 0, 1, 5 :: byte] ! 0 \<noteq> 0xce \<longrightarrow>
      readMessage [0xcf, 0, 0, 0, 1, 5] = Inl (ErrorsNew ''Wrong reponse header'')"
    by blast
  then have c3: "readMessage [0xcf, 0, 0, 0, 1, 5] = Inl (ErrorsNew ''Wrong reponse header'')"
    by simp
  from T have "5 \<le> length [0xce, 0, 0, 0, 0, 5 :: byte] \<and> [0xce, 0, 0, 0, 0, 5 :: byte] ! 0 = 0xce \<and>
      bodyLength (take 5 [0xce, 0, 0, 0, 0, 5]) = 0 \<longrightarrow>
      readMessage [0xce, 0, 0, 0, 0, 5] = Inl (ErrorsNew ''Response should not be 0 length'')"
    by blast
  then have c4: "readMessage [0xce, 0, 0, 0, 0, 5] = Inl (ErrorsNew ''Response should not be 0 length'')"
    by (simp add: bodyLength_def)
  from T have "length [0xce, 0 :: byte] < 5 \<longrightarrow>
      readMessage [0xce, 0] = Inl (if [0xce, 0 :: byte] = [] then EOF else ErrUnexpectedEOF)"
    by blast
  then have c5: "readMessage [0xce, 0] = Inl ErrUnexpectedEOF"
    by simp
  from h c1 c2 c3 c4 c5 show ?thesis by blast
qed

text \<open>
  Claim C6 as stated, for every body, fails: the length is narrowed to 32 bits, so a
  body of \<open>2 ^ 32 - 9\<close> bytes gets the length field 0 and \<open>readMessage\<close> rejects the
  frame that \<open>packIproto\<close> built.
\<close>

theorem packIproto_readMessage_counterexample:
  "readMessage (packIproto 0 1 1 7 (replicate 4294967287 0)) =
     Inl (ErrorsNew ''Response should not be 0 length'')"
  by (simp add: uint32_wraps_to_0 packIproto_eq readMessage_def ReadAtLeast_def
      PacketLengthBytes_def take5_frame bodyLength_be32 length_be32)

section \<open>Properties of the ID allocator\<close>

lemma unat_MaxUint32: "unat MaxUint32 = 4294967295"
  by (simp add: MaxUint32_def)

lemma fst_nextID: "fst (nextID conn) = (if requestID conn = MaxUint32 then 1 else requestID conn + 1)"
  by (simp add: nextID_def Let_def)

lemma requestID_nextID: "requestID (snd (nextID conn)) = fst (nextID conn)"
  by (simp add: nextID_def Let_def)

lemma unat_fst_nextID: "unat (fst (nextID conn)) = unat (requestID conn) mod 4294967295 + 1"
proof (cases "requestID conn = MaxUint32")
  case True
  then show ?thesis by (simp add: fst_nextID unat_MaxUint32)
next
  case False
  then have "unat (requestID conn) \<noteq> 4294967295"
    by (simp add: word_unat_eq_iff unat_MaxUint32)
  moreover have "unat (requestID conn) < 4294967296"
    by (rule unat_uint32_less)
  ultimately have lt: "unat (requestID conn) < 4294967295" by linarith
  then have "unat (requestID conn + 1) = unat (requestID conn) + 1"
    by (simp add: unat_word_ariths)
  with False lt show ?thesis by (simp add: fst_nextID)
qed

lemma length_nextID_calls: "length (nextID_calls n conn) = n"
  by (induction n arbitrary: conn) simp_all

text \<open>The \<open>k\<close>-th ID of a run, read as a number, from the counter the run starts with.\<close>

lemma unat_nextID_calls_nth:
  "k < n \<Longrightarrow> unat (nextID_calls n conn ! k) = (unat (requestID conn) + k) mod 4294967295 + 1"
proof (induction n arbitrary: conn k)
  case 0
  then show ?case by simp
next
  case (Suc n)
  show ?case
  proof (cases k)
    case 0
    then show ?thesis by (simp add: unat_fst_nextID)
  next
    case (Suc j)
    with Suc.prems have "j < n" by simp
    from Suc.IH [OF this, of "snd (nextID conn)"]
    have "unat (nextID_calls n (snd (nextID conn)) ! j) =
            (unat (requestID conn) mod 4294967295 + 1 + j) mod 4294967295 + 1"
      by (simp add: requestID_nextID unat_fst_nextID)
    also have "(unat (requestID conn) mod 4294967295 + 1 + j) mod 4294967295 =
               (unat (requestID conn) + Suc j) mod 4294967295"
      by (metis add.assoc mod_add_left_eq plus_1_eq_Suc)
    finally show ?thesis using Suc by simp
  qed
qed

lemma mod_shift_inj:
  fixes a i j m :: nat
  assumes "i < j" "j - i < m" "(a + i) mod m = (a + j) mod m"
  shows False
proof -
  define x where "x = (a + i) mod m"
  define d where "d = j - i"
  have d: "0 < d" "d < m" using assms by (simp_all add: d_def)
  have x: "x < m" using d by (simp add: x_def)
  have "(a + j) mod m = (a + i + d) mod m" using assms(1) by (simp add: d_def)
  also have "\<dots> = (x + d) mod m"
    unfolding x_def by (rule mod_add_left_eq [symmetric])
  finally have "(a + j) mod m = (x + d) mod m" .
  with assms(3) have eq: "(x + d) mod m = x" by (simp add: x_def)
  show False
  proof (cases "x + d < m")
    case True
    with eq d show False by simp
  next
    case False
    then have "(x + d) mod m = (x + d - m) mod m"
      by (simp add: le_mod_geq)
    also have "\<dots> = x + d - m" using x d by simp
    finally show False using eq d False by simp
  qed
qed

lemma distinct_nextID_calls:
  assumes "n < 4294967296"
  shows "distinct (nextID_calls n conn)"
proof -
  have "nextID_calls n conn ! i \<noteq> nextID_calls n conn ! j" if "i < j" "j < n" for i j
  proof
    assume "nextID_calls n conn ! i = nextID_calls n conn ! j"
    then have "unat (nextID_calls n conn ! i) = unat (nextID_calls n conn ! j)" by simp
    with that have "(unat (requestID conn) + i) mod 4294967295 = (unat (requestID conn) + j) mod 4294967295"
      by (simp add: unat_nextID_calls_nth)
    moreover have "j - i < 4294967295" using that assms by linarith
    ultimately show False using mod_shift_inj that(1) by blast
  qed
  then have "nextID_calls n conn ! i \<noteq> nextID_calls n conn ! j" if "i < n" "j < n" "i \<noteq> j" for i j
    using that by (metis nat_neq_iff)
  then show ?thesis
    by (simp add: distinct_conv_nth length_nextID_calls)
qed

lemma nextID_nonzero: "fst (nextID conn) \<noteq> 0"
proof
  assume "fst (nextID conn) = 0"
  then have "unat (fst (nextID conn)) = 0" by simp
  then show False by (simp add: unat_fst_nextID)
qed

lemma zero_notin_nextID_calls: "0 \<notin> set (nextID_calls n conn)"
  by (induction n arbitrary: conn) (simp_all add: nextID_nonzero [symmetric])

lemma nextID_calls_fresh:
  assumes "n < 4294967296" "requestID conn = 0"
  shows "nextID_calls n conn = map of_nat [1..<Suc n]"
proof (rule nth_equalityI)
  show "length (nextID_calls n conn) = length (map of_nat [1..<Suc n] :: uint32 list)"
    by (simp add: length_nextID_calls)
next
  fix k assume "k < length (nextID_calls n conn)"
  then have k: "k < n" by (simp add: length_nextID_calls)
  then have "unat (nextID_calls n conn ! k) = k + 1"
    using assms by (simp add: unat_nextID_calls_nth)
  moreover have "unat (of_nat (k + 1) :: uint32) = k + 1"
  proof -
    have "unat (of_nat (k + 1) :: uint32) = (k + 1) mod 2 ^ LENGTH(32)"
      by (rule unat_of_nat)
    also have "\<dots> = k + 1" using k assms by simp
    finally show ?thesis .
  qed
  ultimately have "nextID_calls n conn ! k = of_nat (k + 1)"
    by (simp add: word_unat_eq_iff)
  moreover have "(map of_nat [1..<Suc n] :: uint32 list) ! k = of_nat (k + 1)"
    using k by (simp add: nth_map_upt del: upt_Suc)
  ultimately show "nextID_calls n conn ! k = map of_nat [1..<Suc n] ! k" by simp
qed

lemma nextID_calls_successor:
  assumes "Suc k < n"
  shows "nextID_calls n conn ! Suc k =
          (if nextID_calls n conn ! k = MaxUint32 then 1 else nextID_calls n conn ! k + 1)"
  using assms
proof (induction n arbitrary: conn k)
  case 0
  then show ?case by simp
next
  case (Suc n)
  show ?case
  proof (cases k)
    case 0
    with Suc.prems obtain m where "n = Suc m" by (cases n) auto
    with 0 show ?thesis by (simp add: fst_nextID requestID_nextID)
  next
    case (Suc j)
    with Suc.prems have "Suc j < n" by simp
    from Suc.IH [OF this] Suc show ?thesis by simp
  qed
qed

lemma sorted_nextID_calls_fresh:
  assumes "n < 4294967296" "requestID conn = 0"
  shows "sorted_wrt (<) (nextID_calls n conn)"
proof -
  have "nextID_calls n conn ! i < nextID_calls n conn ! j" if "i < j" "j < n" for i j
    using that assms by (simp add: word_less_nat_alt unat_nextID_calls_nth)
  then show ?thesis
    by (simp add: sorted_wrt_iff_nth_less length_nextID_calls)
qed

text \<open>
  Claim C2. Take \<open>N\<close> consecutive calls of \<open>nextID\<close>, \<open>N\<close> below \<open>2 ^ 32\<close>. On a new
  connection (counter 0) the IDs returned are \<open>1, 2, \<dots>, N\<close> in call order: the first is
  1 and they increase strictly, by one each. From any counter the IDs are pairwise
  distinct, 0 is never among them, and each ID is followed by its successor, except the
  maximum \<open>0xFFFFFFFF\<close>, which is followed by 1: no value but 0 is skipped.
\<close>

theorem nextID_sequence:
  assumes "N < 2 ^ 32"
  shows "(requestID conn = 0 \<longrightarrow>
            nextID_calls N conn = map of_nat [1..<Suc N] \<and>
            sorted_wrt (<) (nextID_calls N conn)) \<and>
         distinct (nextID_calls N conn) \<and>
         0 \<notin> set (nextID_calls N conn) \<and>
         (\<forall>k. Suc k < N \<longrightarrow>
            nextID_calls N conn ! Suc k =
              (if nextID_calls N conn ! k = 0xFFFFFFFF then 1 else nextID_calls N conn ! k + 1))"
proof -
  have N: "N < 4294967296" using assms by simp
  have a: "requestID conn = 0 \<longrightarrow>
            nextID_calls N conn = map of_nat [1..<Suc N] \<and>
            sorted_wrt (<) (nextID_calls N conn)"
    using nextID_calls_fresh [OF N] sorted_nextID_calls_fresh [OF N] by blast
  have b: "\<forall>k. Suc k < N \<longrightarrow>
            nextID_calls N conn ! Suc k =
              (if nextID_calls N conn ! k = 0xFFFFFFFF then 1 else nextID_calls N conn ! k + 1)"
    using nextID_calls_successor [of _ N conn] unfolding MaxUint32_def by blast
  from a b distinct_nextID_calls [OF N] zero_notin_nextID_calls show ?thesis
    by blast
qed

lemma nextID_calls_3_fresh: "nextID_calls 3 freshConnection = [1, 2, 3]"
proof -
  have "nextID_calls (Suc (Suc (Suc 0))) freshConnection = [1, 2, 3]"
    by (simp add: freshConnection_def nextID_def MaxUint32_def)
  then show ?thesis by (simp only: numeral_3_eq_3)
qed

lemma nextID_calls_3_wrapping: "nextID_calls 3 wrappingConnection = [0xFFFFFFFF, 1, 2]"
proof -
  have "nextID_calls (Suc (Suc (Suc 0))) wrappingConnection = [0xFFFFFFFF, 1, 2]"
    by (simp add: wrappingConnection_def freshConnection_def nextID_def MaxUint32_def)
  then show ?thesis by (simp only: numeral_3_eq_3)
qed

text \<open>
  The theorem at three calls on a new connection, which return 1, 2, 3, and at three
  calls on a connection whose counter is \<open>0xFFFFFFFE\<close>, which return \<open>0xFFFFFFFF\<close>, 1, 2.
\<close>

theorem nextID_sequence_witness:
  "(3::nat) < 2 ^ 32 \<and> requestID freshConnection = 0 \<and>
   nextID_calls 3 freshConnection = [1, 2, 3] \<and>
   nextID_calls 3 freshConnection = map of_nat [1..<Suc 3] \<and>
   sorted_wrt (<) (nextID_calls 3 freshConnection) \<and>
   distinct (nextID_calls 3 freshConnection) \<and>
   0 \<notin> set (nextID_calls 3 freshConnection) \<and>
   nextID_calls 3 wrappingConnection = [0xFFFFFFFF, 1, 2] \<and>
   distinct (nextID_calls 3 wrappingConnection) \<and>
   nextID_calls 3 wrappingConnection ! Suc 0 = 1"
proof -
  have h1: "(3::nat) < 2 ^ 32" by simp
  have h2: "requestID freshConnection = 0" by (simp add: freshConnection_def)
  have h3: "Suc 0 < (3::nat)" by simp
  have h4: "nextID_calls 3 wrappingConnection ! 0 = 0xFFFFFFFF"
    by (simp add: nextID_calls_3_wrapping)
  note F = nextID_sequence [OF h1, of freshConnection]
  note W = nextID_sequence [OF h1, of wrappingConnection]
  from W h3 have "nextID_calls 3 wrappingConnection ! Suc 0 =
      (if nextID_calls 3 wrappingConnection ! 0 = 0xFFFFFFFF then 1
       else nextID_calls 3 wrappingConnection ! 0 + 1)"
    by blast
  with h4 have w: "nextID_calls 3 wrappingConnection ! Suc 0 = 1" by simp
  from W have dw: "distinct (nextID_calls 3 wrappingConnection)" by blast
  from h1 h2 F nextID_calls_3_fresh nextID_calls_3_wrapping w dw show ?thesis
    by blast
qed

section \<open>Properties of the registry\<close>

lemma nextID_fields [simp]:
  "requests (snd (nextID conn)) = requests conn"
  "requestChan (snd (nextID conn)) = requestChan conn"
  "defaultSpace (snd (nextID conn)) = defaultSpace conn"
  "closeOnce (snd (nextID conn)) = closeOnce conn"
  "exit (snd (nextID conn)) = exit conn"
  "closed (snd (nextID conn)) = closed conn"
  "tcpConn (snd (nextID conn)) = tcpConn conn"
  by (simp_all add: nextID_def Let_def)

lemma evict_None:
  "map_of (requests conn) rid = None \<Longrightarrow> evict h conn rid = Inr (h, conn)"
  by (simp add: evict_def)

lemma evict_Some:
  assumes "map_of (requests conn) rid = Some old" "\<not> isClosed (h (replyChan old))"
  shows "evict h conn rid =
           Inr (h(replyChan old :=
                    (h (replyChan old))
                      \<lparr>received := received (h (replyChan old)) @
                                  [errorResponse (ConnectionError ''Shred old requests'')],
                       isClosed := True\<rparr>),
                conn\<lparr>requests := AList.delete rid (requests conn)\<rparr>)"
  using assms by (simp add: evict_def and_then_def send_def close_chan_def)

lemma newRequest_unfold:
  "newRequest Pack h conn r =
     and_then (evict h (snd (nextID conn)) (fst (nextID conn)))
       (\<lambda>(h, c).
          case snd (Pack (query r) (fst (nextID conn)) (defaultSpace c)) of
            Some e \<Rightarrow>
              and_then (send h (replyChan r) (errorResponse (QueryError e)))
                (\<lambda>h. Inr (Some e, r\<lparr>raw := fst (Pack (query r) (fst (nextID conn)) (defaultSpace c))\<rparr>, h, c))
          | None \<Rightarrow>
              Inr (None, r\<lparr>raw := fst (Pack (query r) (fst (nextID conn)) (defaultSpace c))\<rparr>, h,
                   c\<lparr>requests := AList.update (fst (nextID conn))
                       (r\<lparr>raw := fst (Pack (query r) (fst (nextID conn)) (defaultSpace c))\<rparr>) (requests c)\<rparr>))"
  by (simp add: newRequest_def split_beta Let_def cong: option.case_cong)

text \<open>The store and connection after the eviction step of \<open>newRequest\<close>.\<close>

lemma evict_result:
  assumes "\<forall>old. map_of (requests conn) rid = Some old \<longrightarrow> \<not> isClosed (h (replyChan old))"
  shows "evict h conn rid =
           Inr (case map_of (requests conn) rid of
                  None \<Rightarrow> h
                | Some old \<Rightarrow>
                    h(replyChan old := (h (replyChan old))
                        \<lparr>received := received (h (replyChan old)) @
                                     [errorResponse (ConnectionError ''Shred old requests'')],
                         isClosed := True\<rparr>),
                conn\<lparr>requests := AList.delete rid (requests conn)\<rparr>)"
proof (cases "map_of (requests conn) rid")
  case None
  then have "AList.delete rid (requests conn) = requests conn"
    by (simp add: delete_id map_of_eq_None_iff)
  with None show ?thesis by (simp add: evict_None)
next
  case (Some old)
  with assms have "\<not> isClosed (h (replyChan old))" by simp
  from evict_Some [of conn rid old h] Some this show ?thesis by simp
qed

lemma newRequest_pack_failure:
  assumes pf: "snd (Pack (query r) (fst (nextID conn)) (defaultSpace conn)) = Some e"
      and ev: "evict h (snd (nextID conn)) (fst (nextID conn)) = Inr (hE, cE)"
      and op: "\<not> isClosed (hE (replyChan r))"
  shows "newRequest Pack h conn r =
           Inr (Some e, r\<lparr>raw := fst (Pack (query r) (fst (nextID conn)) (defaultSpace conn))\<rparr>,
                hE(replyChan r := (hE (replyChan r))
                      \<lparr>received := received (hE (replyChan r)) @ [errorResponse (QueryError e)]\<rparr>),
                cE)"
proof -
  have "defaultSpace cE = defaultSpace conn"
    using ev by (auto simp: evict_def and_then_def send_def close_chan_def
        split: option.splits if_splits)
  with pf ev op show ?thesis
    by (simp add: newRequest_unfold and_then_def send_def)
qed

lemma newRequest_pack_success:
  assumes pf: "snd (Pack (query r) (fst (nextID conn)) (defaultSpace conn)) = None"
      and ev: "evict h (snd (nextID conn)) (fst (nextID conn)) = Inr (hE, cE)"
  shows "newRequest Pack h conn r =
           Inr (None, r\<lparr>raw := fst (Pack (query r) (fst (nextID conn)) (defaultSpace conn))\<rparr>,
                hE,
                cE\<lparr>requests := AList.update (fst (nextID conn))
                  (r\<lparr>raw := fst (Pack (query r) (fst (nextID conn)) (defaultSpace conn))\<rparr>)
                  (requests cE)\<rparr>)"
proof -
  have "defaultSpace cE = defaultSpace conn"
    using ev by (auto simp: evict_def and_then_def send_def close_chan_def
        split: option.splits if_splits)
  with pf ev show ?thesis
    by (simp add: newRequest_unfold and_then_def)
qed

lemma nextID_requestChan_update [simp]:
  "fst (nextID (conn\<lparr>requestChan := ch\<rparr>)) = fst (nextID conn)"
  "snd (nextID (conn\<lparr>requestChan := ch\<rparr>)) = (snd (nextID conn))\<lparr>requestChan := ch\<rparr>"
  by (simp_all add: nextID_def Let_def)

lemma evict_requestChan_update:
  "evict h (conn\<lparr>requestChan := ch\<rparr>) rid =
     (case evict h conn rid of Inl p \<Rightarrow> Inl p | Inr (h1, c1) \<Rightarrow> Inr (h1, c1\<lparr>requestChan := ch\<rparr>))"
  by (simp add: evict_def and_then_def split: option.splits sum.splits)

lemma map_of_delete_other: "k \<noteq> rid \<Longrightarrow> map_of (AList.delete rid al) k = map_of al k"
  by (simp add: delete_conv)

lemma map_of_delete_same: "map_of (AList.delete rid al) rid = None"
  by (simp add: delete_conv)

lemma delete_absent: "map_of al rid = None \<Longrightarrow> AList.delete rid al = al"
  by (simp add: delete_id map_of_eq_None_iff)

text \<open>
  Claim C7. The Router takes a request from the submission queue and its \<^verbatim>\<open>Pack\<close>
  fails with \<open>e\<close> (the reply channels involved being open). Then the iteration ends
  without a panic and goes on with the loop; the request's reply channel has received
  \<open>QueryError e\<close> as its next value; the request is not registered: the registry is
  the one before with the entry of the allocated ID deleted, so there is no entry under
  that ID, every other ID maps to what it mapped to, and with no stale entry under the
  allocated ID the registry is unchanged; \<^verbatim>\<open>writeChan\<close> and \<^verbatim>\<open>readChan\<close> are unchanged,
  so nothing was forwarded to the Writer; and \<^verbatim>\<open>closeOnce\<close>, \<^verbatim>\<open>exit\<close>, \<^verbatim>\<open>closed\<close> and the
  socket are unchanged. What the failure itself does is the one send: the connection is
  the one the eviction step left, which runs before \<^verbatim>\<open>Pack\<close> for every submission, and the
  store is the one it left with the query error added to the request's channel.
\<close>

theorem router_pack_failure:
  assumes q: "queue (requestChan (connOf s)) = r # rest"
      and under: "length (queue (readChan s)) \<le> readChanThreshold s"
      and pf: "snd (Pack (query r) (fst (nextID (connOf s))) (defaultSpace (connOf s))) = Some e"
      and ro: "\<not> isClosed (replyStore s (replyChan r))"
      and oo: "\<forall>old. map_of (requests (connOf s)) (fst (nextID (connOf s))) = Some old \<longrightarrow>
                 \<not> isClosed (replyStore s (replyChan old)) \<and> replyChan old \<noteq> replyChan r"
  shows "\<exists>s'. router_select Pack RequestCase s = Continue s' \<and>
           received (replyStore s' (replyChan r)) =
             received (replyStore s (replyChan r)) @ [errorResponse (QueryError e)] \<and>
           \<not> isClosed (replyStore s' (replyChan r)) \<and>
           requests (connOf s') = AList.delete (fst (nextID (connOf s))) (requests (connOf s)) \<and>
           map_of (requests (connOf s')) (fst (nextID (connOf s))) = None \<and>
           (\<forall>k. k \<noteq> fst (nextID (connOf s)) \<longrightarrow>
                map_of (requests (connOf s')) k = map_of (requests (connOf s)) k) \<and>
           (map_of (requests (connOf s)) (fst (nextID (connOf s))) = None \<longrightarrow>
                requests (connOf s') = requests (connOf s)) \<and>
           writeChan s' = writeChan s \<and> readChan s' = readChan s \<and>
           queue (requestChan (connOf s')) = rest \<and>
           closeOnce (connOf s') = closeOnce (connOf s) \<and> exit (connOf s') = exit (connOf s) \<and>
           closed (connOf s') = closed (connOf s) \<and> tcpConn (connOf s') = tcpConn (connOf s) \<and>
           (\<exists>h1 c1.
              evict (replyStore s) (snd (nextID (connOf s))) (fst (nextID (connOf s))) = Inr (h1, c1) \<and>
              connOf s' = c1\<lparr>requestChan := (requestChan (connOf s))\<lparr>queue := rest\<rparr>\<rparr> \<and>
              replyStore s' =
                h1(replyChan r := (h1 (replyChan r))
                     \<lparr>received := received (h1 (replyChan r)) @ [errorResponse (QueryError e)]\<rparr>))"
proof -
  let ?conn = "connOf s"
  let ?rid = "fst (nextID ?conn)"
  let ?popped = "?conn\<lparr>requestChan := (requestChan ?conn)\<lparr>queue := rest\<rparr>\<rparr>"
  let ?c1 = "(snd (nextID ?conn))\<lparr>requests := AList.delete ?rid (requests ?conn)\<rparr>"
  define h1 where "h1 = (case map_of (requests ?conn) ?rid of
                  None \<Rightarrow> replyStore s
                | Some old \<Rightarrow>
                    (replyStore s)(replyChan old := (replyStore s (replyChan old))
                        \<lparr>received := received (replyStore s (replyChan old)) @
                                     [errorResponse (ConnectionError ''Shred old requests'')],
                         isClosed := True\<rparr>))"
  from oo have "\<forall>old. map_of (requests (snd (nextID ?conn))) ?rid = Some old \<longrightarrow>
      \<not> isClosed (replyStore s (replyChan old))" by simp
  from evict_result [OF this]
  have ev: "evict (replyStore s) (snd (nextID ?conn)) ?rid = Inr (h1, ?c1)"
    by (simp add: h1_def)
  have same: "h1 (replyChan r) = replyStore s (replyChan r)"
    using oo by (auto simp: h1_def split: option.splits)
  let ?c2 = "?c1\<lparr>requestChan := (requestChan ?conn)\<lparr>queue := rest\<rparr>\<rparr>"
  have ev': "evict (replyStore s) (snd (nextID ?popped)) (fst (nextID ?popped)) = Inr (h1, ?c2)"
    using ev by (simp add: evict_requestChan_update)
  have pf': "snd (Pack (query r) (fst (nextID ?popped)) (defaultSpace ?popped)) = Some e"
    using pf by simp
  have op: "\<not> isClosed (h1 (replyChan r))" using same ro by simp
  note nr = newRequest_pack_failure [where Pack = Pack and r = r and conn = "?popped" and e = e
      and h = "replyStore s" and hE = h1 and cE = "?c2", OF pf' ev' op]
  have rdy: "case_ready s RequestCase"
    using q under by (simp add: case_ready_def routerRequestChan_def recv_ready_def)
  let ?h2 = "h1(replyChan r := (h1 (replyChan r))
                \<lparr>received := received (h1 (replyChan r)) @ [errorResponse (QueryError e)]\<rparr>)"
  define s' where "s' = s\<lparr>connOf := ?c2, replyStore := ?h2\<rparr>"
  have sel: "router_select Pack RequestCase s = Continue s'"
    using rdy q nr by (simp add: router_select_def s'_def)
  have f1: "received (replyStore s' (replyChan r)) =
          received (replyStore s (replyChan r)) @ [errorResponse (QueryError e)]"
    and f2: "\<not> isClosed (replyStore s' (replyChan r))"
    using same ro by (simp_all add: s'_def)
  have f3: "requests (connOf s') = AList.delete ?rid (requests ?conn)"
    by (simp add: s'_def)
  have f4: "map_of (requests (connOf s')) ?rid = None"
    by (simp add: s'_def map_of_delete_same)
  have f5: "\<forall>k. k \<noteq> ?rid \<longrightarrow> map_of (requests (connOf s')) k = map_of (requests ?conn) k"
    by (simp add: s'_def map_of_delete_other)
  have f6: "map_of (requests ?conn) ?rid = None \<longrightarrow> requests (connOf s') = requests ?conn"
    by (simp add: s'_def delete_absent)
  have f7: "writeChan s' = writeChan s" "readChan s' = readChan s"
    "queue (requestChan (connOf s')) = rest"
    "closeOnce (connOf s') = closeOnce ?conn" "exit (connOf s') = exit ?conn"
    "closed (connOf s') = closed ?conn" "tcpConn (connOf s') = tcpConn ?conn"
    by (simp_all add: s'_def)
  have f8: "\<exists>h1 c1.
      evict (replyStore s) (snd (nextID ?conn)) ?rid = Inr (h1, c1) \<and>
      connOf s' = c1\<lparr>requestChan := (requestChan ?conn)\<lparr>queue := rest\<rparr>\<rparr> \<and>
      replyStore s' =
        h1(replyChan r := (h1 (replyChan r))
             \<lparr>received := received (h1 (replyChan r)) @ [errorResponse (QueryError e)]\<rparr>)"
    by (rule exI [of _ h1], rule exI [of _ ?c1]) (simp add: s'_def ev)
  show ?thesis
    apply (rule exI [of _ s'])
    apply (intro conjI)
    apply (rule sel)
    apply (rule f1)
    apply (rule f2)
    apply (rule f3)
    apply (rule f4)
    apply (rule f5)
    apply (rule f6)
    apply (rule f7)+
    apply (rule f8)
    done
qed

lemma fst_nextID_fresh: "fst (nextID freshConnection) = 1"
  by (simp add: nextID_def freshConnection_def MaxUint32_def)

text \<open>
  The theorem on the pipeline \<^verbatim>\<open>worker\<close> starts with, after one submission of a request
  that cannot be packed.
\<close>

theorem router_pack_failure_witness:
  "queue (requestChan (connOf (submitted failingRequest startPipeline))) = [failingRequest] \<and>
   length (queue (readChan (submitted failingRequest startPipeline)))
     \<le> readChanThreshold (submitted failingRequest startPipeline) \<and>
   snd (examplePack (query failingRequest)
         (fst (nextID (connOf (submitted failingRequest startPipeline))))
         (defaultSpace (connOf (submitted failingRequest startPipeline)))) =
     Some (Foreign ''cannot pack'') \<and>
   \<not> isClosed (replyStore (submitted failingRequest startPipeline) (replyChan failingRequest)) \<and>
   map_of (requests (connOf (submitted failingRequest startPipeline)))
     (fst (nextID (connOf (submitted failingRequest startPipeline)))) = None \<and>
   (\<exists>s'. router_select examplePack RequestCase (submitted failingRequest startPipeline) = Continue s' \<and>
        received (replyStore s' 7) = [errorResponse (QueryError (Foreign ''cannot pack''))] \<and>
        requests (connOf s') = [] \<and>
        writeChan s' = make_chan 256 \<and>
        queue (requestChan (connOf s')) = [] \<and>
        \<not> closeOnce (connOf s') \<and> \<not> exit (connOf s') \<and> \<not> closed (connOf s'))"
proof -
  let ?s = "submitted failingRequest startPipeline"
  have c: "connOf ?s = freshConnection\<lparr>requestChan := (make_chan 16)\<lparr>queue := [failingRequest]\<rparr>\<rparr>"
    by (simp add: submitted_def startPipeline_def freshConnection_def)
  have rid: "fst (nextID (connOf ?s)) = 1"
    by (simp add: c fst_nextID_fresh)
  have q: "queue (requestChan (connOf ?s)) = failingRequest # []"
    by (simp add: c)
  have under: "length (queue (readChan ?s)) \<le> readChanThreshold ?s"
    by (simp add: submitted_def startPipeline_def make_chan_def readChanThreshold_def)
  have pf: "snd (examplePack (query failingRequest) (fst (nextID (connOf ?s))) (defaultSpace (connOf ?s))) =
              Some (Foreign ''cannot pack'')"
    by (simp add: examplePack_def failingRequest_def)
  have ro: "\<not> isClosed (replyStore ?s (replyChan failingRequest))"
    by (simp add: submitted_def startPipeline_def emptyStore_def)
  have oo: "\<forall>old. map_of (requests (connOf ?s)) (fst (nextID (connOf ?s))) = Some old \<longrightarrow>
                 \<not> isClosed (replyStore ?s (replyChan old)) \<and> replyChan old \<noteq> replyChan failingRequest"
    by (simp add: c freshConnection_def)
  from router_pack_failure [where s = "?s" and r = failingRequest and rest = "[]"
      and Pack = examplePack and e = "Foreign ''cannot pack''", OF q under pf ro oo]
  obtain s' where s': "router_select examplePack RequestCase ?s = Continue s'"
    "received (replyStore s' (replyChan failingRequest)) =
       received (replyStore ?s (replyChan failingRequest)) @ [errorResponse (QueryError (Foreign ''cannot pack''))]"
    "requests (connOf s') = AList.delete (fst (nextID (connOf ?s))) (requests (connOf ?s))"
    "writeChan s' = writeChan ?s" "queue (requestChan (connOf s')) = []"
    "closeOnce (connOf s') = closeOnce (connOf ?s)" "exit (connOf s') = exit (connOf ?s)"
    "closed (connOf s') = closed (connOf ?s)"
    by blast
  have "received (replyStore s' 7) = [errorResponse (QueryError (Foreign ''cannot pack''))]"
    using s'(2) by (simp add: failingRequest_def submitted_def startPipeline_def emptyStore_def)
  moreover have "requests (connOf s') = []"
    using s'(3) by (simp add: c freshConnection_def)
  moreover have "writeChan s' = make_chan 256"
    using s'(4) by (simp add: submitted_def startPipeline_def)
  moreover have "\<not> closeOnce (connOf s')" "\<not> exit (connOf s')" "\<not> closed (connOf s')"
    using s'(6,7,8) by (simp_all add: c freshConnection_def)
  ultimately have "\<exists>s'. router_select examplePack RequestCase ?s = Continue s' \<and>
        received (replyStore s' 7) = [errorResponse (QueryError (Foreign ''cannot pack''))] \<and>
        requests (connOf s') = [] \<and>
        writeChan s' = make_chan 256 \<and>
        queue (requestChan (connOf s')) = [] \<and>
        \<not> closeOnce (connOf s') \<and> \<not> exit (connOf s') \<and> \<not> closed (connOf s')"
    using s'(1,5) by blast
  moreover have "map_of (requests (connOf ?s)) (fst (nextID (connOf ?s))) = None"
    by (simp add: c freshConnection_def)
  ultimately show ?thesis using q under pf ro by simp
qed

text \<open>
  Claim C3, as amended. The registry is a map, so an ID has at most one entry, and
  \<open>newRequest\<close> keeps the keys of the association list distinct. When the ID that
  \<open>newRequest\<close> allocates is still registered for an older request (the reply channels
  involved being open and different), the eviction comes first: the older request's
  channel receives the connection error \<open>Shred old requests\<close> and is closed, and its
  entry is deleted, before \<^verbatim>\<open>Pack\<close> is called. Afterwards the older request is not
  registered under that ID; the new request is registered under it exactly when its
  \<^verbatim>\<open>Pack\<close> returned no error, and otherwise the ID has no entry. The entries of all
  other IDs are unchanged.
\<close>

theorem newRequest_evicts_collision:
  assumes col: "map_of (requests conn) (fst (nextID conn)) = Some old"
      and oo: "\<not> isClosed (h (replyChan old))"
      and ro: "\<not> isClosed (h (replyChan r))"
      and ne: "replyChan old \<noteq> replyChan r"
  shows "\<exists>err r' h' conn' h1 c1.
          evict h (snd (nextID conn)) (fst (nextID conn)) = Inr (h1, c1) \<and>
          map_of (requests c1) (fst (nextID conn)) = None \<and>
          received (h1 (replyChan old)) =
            received (h (replyChan old)) @ [errorResponse (ConnectionError ''Shred old requests'')] \<and>
          isClosed (h1 (replyChan old)) \<and>
          newRequest Pack h conn r = Inr (err, r', h', conn') \<and>
          h' (replyChan old) = h1 (replyChan old) \<and>
          err = snd (Pack (query r) (fst (nextID conn)) (defaultSpace conn)) \<and>
          r' = r\<lparr>raw := fst (Pack (query r) (fst (nextID conn)) (defaultSpace conn))\<rparr> \<and>
          map_of (requests conn') (fst (nextID conn)) = (if err = None then Some r' else None) \<and>
          map_of (requests conn') (fst (nextID conn)) \<noteq> Some old \<and>
          (\<forall>k. k \<noteq> fst (nextID conn) \<longrightarrow> map_of (requests conn') k = map_of (requests conn) k) \<and>
          (distinct (map fst (requests conn)) \<longrightarrow> distinct (map fst (requests conn')))"
proof -
  let ?rid = "fst (nextID conn)"
  let ?p = "Pack (query r) ?rid (defaultSpace conn)"
  let ?r' = "r\<lparr>raw := fst ?p\<rparr>"
  define h1 where "h1 = h(replyChan old := (h (replyChan old))
                        \<lparr>received := received (h (replyChan old)) @
                                     [errorResponse (ConnectionError ''Shred old requests'')],
                         isClosed := True\<rparr>)"
  define c1 where "c1 = (snd (nextID conn))\<lparr>requests := AList.delete ?rid (requests conn)\<rparr>"
  have ev: "evict h (snd (nextID conn)) ?rid = Inr (h1, c1)"
    using evict_Some [of "snd (nextID conn)" ?rid old h] col oo by (simp add: h1_def c1_def)
  have e1: "map_of (requests c1) ?rid = None"
    by (simp add: c1_def map_of_delete_same)
  have e2: "received (h1 (replyChan old)) =
            received (h (replyChan old)) @ [errorResponse (ConnectionError ''Shred old requests'')]"
    and e3: "isClosed (h1 (replyChan old))"
    by (simp_all add: h1_def)
  have op: "\<not> isClosed (h1 (replyChan r))"
    using ro ne by (simp add: h1_def)
  have ro': "replyChan ?r' \<noteq> replyChan old" using ne by simp
  have old_r': "old \<noteq> ?r'" using ro' by auto
  show ?thesis
  proof (cases "snd ?p")
    case None
    define conn' where "conn' = c1\<lparr>requests := AList.update ?rid ?r' (requests c1)\<rparr>"
    have nr: "newRequest Pack h conn r = Inr (snd ?p, ?r', h1, conn')"
      using newRequest_pack_success [where Pack = Pack and r = r and conn = conn and h = h
          and hE = h1 and cE = c1, OF None ev] None
      by (simp add: conn'_def)
    have a: "map_of (requests conn') ?rid = (if snd ?p = None then Some ?r' else None)"
      using None by (simp add: conn'_def update_conv')
    have b: "map_of (requests conn') ?rid \<noteq> Some old"
      using a None old_r' by simp
    have c: "\<forall>k. k \<noteq> ?rid \<longrightarrow> map_of (requests conn') k = map_of (requests conn) k"
      by (simp add: conn'_def c1_def update_conv' map_of_delete_other)
    have d: "distinct (map fst (requests conn)) \<longrightarrow> distinct (map fst (requests conn'))"
      by (simp add: conn'_def c1_def distinct_update distinct_delete)
    show ?thesis
      apply (rule exI [of _ "snd ?p"], rule exI [of _ ?r'], rule exI [of _ h1],
          rule exI [of _ conn'], rule exI [of _ h1], rule exI [of _ c1])
      apply (intro conjI)
      apply (rule ev, rule e1, rule e2, rule e3, rule nr, rule refl, rule refl, rule refl)
      apply (rule a, rule b, rule c, rule d)
      done
  next
    case (Some e)
    define h' where "h' = h1(replyChan r := (h1 (replyChan r))
                      \<lparr>received := received (h1 (replyChan r)) @ [errorResponse (QueryError e)]\<rparr>)"
    have nr: "newRequest Pack h conn r = Inr (snd ?p, ?r', h', c1)"
      using newRequest_pack_failure [where Pack = Pack and r = r and conn = conn and h = h
          and e = e and hE = h1 and cE = c1, OF Some ev op] Some
      by (simp add: h'_def)
    have s: "h' (replyChan old) = h1 (replyChan old)"
      using ne by (simp add: h'_def)
    have a: "map_of (requests c1) ?rid = (if snd ?p = None then Some ?r' else None)"
      using Some e1 by simp
    have b: "map_of (requests c1) ?rid \<noteq> Some old"
      using e1 by simp
    have c: "\<forall>k. k \<noteq> ?rid \<longrightarrow> map_of (requests c1) k = map_of (requests conn) k"
      by (simp add: c1_def map_of_delete_other)
    have d: "distinct (map fst (requests conn)) \<longrightarrow> distinct (map fst (requests c1))"
      by (simp add: c1_def distinct_delete)
    show ?thesis
      apply (rule exI [of _ "snd ?p"], rule exI [of _ ?r'], rule exI [of _ h'],
          rule exI [of _ c1], rule exI [of _ h1], rule exI [of _ c1])
      apply (intro conjI)
      apply (rule ev, rule e1, rule e2, rule e3, rule nr, rule s, rule refl, rule refl)
      apply (rule a, rule b, rule c, rule d)
      done
  qed
qed

lemma fst_nextID_colliding: "fst (nextID collidingConnection) = 1"
  by (simp add: nextID_def collidingConnection_def freshConnection_def MaxUint32_def)

lemma snd_nextID_colliding:
  "snd (nextID collidingConnection) = collidingConnection\<lparr>requestID := 1\<rparr>"
  by (simp add: nextID_def collidingConnection_def freshConnection_def MaxUint32_def)

lemma requests_colliding: "requests collidingConnection = [(1, oldRequest)]"
  by (simp add: collidingConnection_def)

text \<open>
  The theorem on a connection whose next ID, 1, is registered for an older request, and
  a new request that packs: the older request is failed and the new one installed.
\<close>

theorem newRequest_evicts_collision_witness:
  "\<exists>h' conn'.
     map_of (requests collidingConnection) (fst (nextID collidingConnection)) = Some oldRequest \<and>
     \<not> isClosed (emptyStore (replyChan oldRequest)) \<and>
     \<not> isClosed (emptyStore (replyChan goodRequest)) \<and>
     replyChan oldRequest \<noteq> replyChan goodRequest \<and>
     newRequest examplePack emptyStore collidingConnection goodRequest =
       Inr (None, goodRequest\<lparr>raw := [1, 2, 3, 4]\<rparr>, h', conn') \<and>
     received (h' (replyChan oldRequest)) = [errorResponse (ConnectionError ''Shred old requests'')] \<and>
     isClosed (h' (replyChan oldRequest)) \<and>
     map_of (requests conn') 1 = Some (goodRequest\<lparr>raw := [1, 2, 3, 4]\<rparr>)"
proof -
  have col: "map_of (requests collidingConnection) (fst (nextID collidingConnection)) = Some oldRequest"
    by (simp add: fst_nextID_colliding requests_colliding)
  have oo: "\<not> isClosed (emptyStore (replyChan oldRequest))"
    and ro: "\<not> isClosed (emptyStore (replyChan goodRequest))"
    by (simp_all add: emptyStore_def)
  have ne: "replyChan oldRequest \<noteq> replyChan goodRequest"
    by (simp add: oldRequest_def goodRequest_def)
  have p: "examplePack (query goodRequest) (fst (nextID collidingConnection))
             (defaultSpace collidingConnection) = ([1, 2, 3, 4], None)"
    by (simp add: examplePack_def goodRequest_def)
  from newRequest_evicts_collision [where Pack = examplePack and h = emptyStore
      and conn = collidingConnection and r = goodRequest and old = oldRequest, OF col oo ro ne]
  obtain err r' h' conn' h1 where
    a: "received (h1 (replyChan oldRequest)) =
            received (emptyStore (replyChan oldRequest)) @ [errorResponse (ConnectionError ''Shred old requests'')]"
    "isClosed (h1 (replyChan oldRequest))"
    "newRequest examplePack emptyStore collidingConnection goodRequest = Inr (err, r', h', conn')"
    "h' (replyChan oldRequest) = h1 (replyChan oldRequest)"
    "err = snd (examplePack (query goodRequest) (fst (nextID collidingConnection)) (defaultSpace collidingConnection))"
    "r' = goodRequest\<lparr>raw := fst (examplePack (query goodRequest) (fst (nextID collidingConnection)) (defaultSpace collidingConnection))\<rparr>"
    "map_of (requests conn') (fst (nextID collidingConnection)) = (if err = None then Some r' else None)"
    by blast
  from a(5) p have err: "err = None" by simp
  from a(6) p have r': "r' = goodRequest\<lparr>raw := [1, 2, 3, 4]\<rparr>" by simp
  have "newRequest examplePack emptyStore collidingConnection goodRequest =
       Inr (None, goodRequest\<lparr>raw := [1, 2, 3, 4]\<rparr>, h', conn')"
    using a(3) err r' by simp
  moreover have "received (h' (replyChan oldRequest)) = [errorResponse (ConnectionError ''Shred old requests'')]"
    using a(1) a(4) by (simp add: emptyStore_def)
  moreover have "isClosed (h' (replyChan oldRequest))"
    using a(2) a(4) by simp
  moreover have "map_of (requests conn') 1 = Some (goodRequest\<lparr>raw := [1, 2, 3, 4]\<rparr>)"
    using a(7) err r' by (simp add: fst_nextID_colliding)
  ultimately show ?thesis using col oo ro ne by blast
qed

text \<open>
  Claim C3 as stated fails when the new request cannot be packed: the older request is
  evicted all the same, the new one is not installed, and afterwards nothing is
  registered under the ID.
\<close>

theorem newRequest_collision_counterexample:
  "map_of (requests collidingConnection) (fst (nextID collidingConnection)) = Some oldRequest \<and>
   newRequest examplePack emptyStore collidingConnection failingRequest =
     Inr (Some (Foreign ''cannot pack''), failingRequest,
          emptyStore
            (5 := \<lparr>received = [errorResponse (ConnectionError ''Shred old requests'')], isClosed = True\<rparr>,
             7 := \<lparr>received = [errorResponse (QueryError (Foreign ''cannot pack''))], isClosed = False\<rparr>),
          collidingConnection\<lparr>requestID := 1, requests := []\<rparr>) \<and>
   map_of (requests (collidingConnection\<lparr>requestID := 1, requests := []\<rparr>))
     (fst (nextID collidingConnection)) = None"
proof -
  have col: "map_of (requests collidingConnection) (fst (nextID collidingConnection)) = Some oldRequest"
    by (simp add: fst_nextID_colliding requests_colliding)
  have ev: "evict emptyStore (snd (nextID collidingConnection)) (fst (nextID collidingConnection)) =
      Inr (emptyStore(5 := \<lparr>received = [errorResponse (ConnectionError ''Shred old requests'')], isClosed = True\<rparr>),
           collidingConnection\<lparr>requestID := 1, requests := []\<rparr>)"
    by (simp add: evict_def fst_nextID_colliding snd_nextID_colliding requests_colliding
        and_then_def send_def close_chan_def emptyStore_def oldRequest_def)
  have pf: "snd (examplePack (query failingRequest) (fst (nextID collidingConnection))
             (defaultSpace collidingConnection)) = Some (Foreign ''cannot pack'')"
    by (simp add: examplePack_def failingRequest_def)
  have op: "\<not> isClosed ((emptyStore(5 := \<lparr>received = [errorResponse (ConnectionError ''Shred old requests'')], isClosed = True\<rparr>))
                (replyChan failingRequest))"
    by (simp add: failingRequest_def emptyStore_def)
  have "newRequest examplePack emptyStore collidingConnection failingRequest =
     Inr (Some (Foreign ''cannot pack''), failingRequest,
          emptyStore
            (5 := \<lparr>received = [errorResponse (ConnectionError ''Shred old requests'')], isClosed = True\<rparr>,
             7 := \<lparr>received = [errorResponse (QueryError (Foreign ''cannot pack''))], isClosed = False\<rparr>),
          collidingConnection\<lparr>requestID := 1, requests := []\<rparr>)"
    unfolding newRequest_pack_failure [where Pack = examplePack and r = failingRequest
        and conn = collidingConnection and h = emptyStore, OF pf ev op]
    by (simp add: examplePack_def failingRequest_def emptyStore_def)
  with col show ?thesis by simp
qed

section \<open>Properties of the Reader\<close>

lemma reader_body_panics:
  "12 \<le> length stream \<Longrightarrow> reader_body (stream, rc) = ReaderPanic NilDereference"
  by (simp add: reader_body_def ReadAtLeast_def Let_def)

lemma reader_body_breaks:
  "length stream < 12 \<Longrightarrow> reader_body (stream, rc) = ReaderBreak (stream, rc)"
  by (simp add: reader_body_def ReadAtLeast_def Let_def)

lemma reader_panics: "12 \<le> length stream \<Longrightarrow> reader (stream, rc) = Inl NilDereference"
  by (subst reader.simps) (simp add: reader_body_panics)

lemma reader_breaks: "length stream < 12 \<Longrightarrow> reader (stream, rc) = Inr (stream, rc)"
  by (subst reader.simps) (simp add: reader_body_breaks)

lemma reader_never_delivers: "reader (stream, rc) = Inr (stream', rc') \<Longrightarrow> rc' = rc \<and> stream' = stream"
  by (cases "12 \<le> length stream") (auto simp: reader_panics reader_breaks)

text \<open>
  Claim C5 at a frame as \<open>packIproto\<close> builds it (request code 0, ID 1, empty body), the
  twelve bytes of the Reader's header included: the Reader reads the header, reads a
  body of length 0, sets \<^verbatim>\<open>response\<close> to nil and panics on the write to
  \<^verbatim>\<open>response.requestID\<close>. No Response is decoded and none reaches \<^verbatim>\<open>readChan\<close>; by
  \<open>reader_never_delivers\<close> the Reader delivers nothing on any input.
\<close>

theorem reader_panics_on_frame:
  "reader (packIproto 0 1 0 1 [], make_chan 256) = Inl NilDereference"
proof -
  have "12 \<le> length (packIproto 0 1 0 1 [])"
    by (simp add: packIproto_eq length_be32)
  then show ?thesis by (rule reader_panics)
qed

section \<open>Properties of \<^verbatim>\<open>Connect\<close>\<close>

lemma connect_failed_conn [simp]: "resultConn (connect_failed options sock err) = None"
  by (simp add: connect_failed_def)

lemma nextID_defaultSpace_eq: "defaultSpace (snd (nextID conn)) = defaultSpace conn"
  by simp

lemma connect_auth_defaultSpace:
  "resultConn (connect_auth authPack decodeResponse options conn sock g) = Some c \<Longrightarrow>
     defaultSpace c = defaultSpace conn"
  by (auto simp: connect_auth_def Let_def split_beta split: option.splits sum.splits if_splits)

lemma Connect_defaultSpace:
  assumes "resultConn (Connect dial authPack decodeResponse address optionsArg) = Some c"
  shows "defaultSpace c = (case optionsArg of None \<Rightarrow> [] | Some given \<Rightarrow> DefaultSpace given)"
  using assms
  by (auto simp: Connect_def Let_def zeroOptions_def split: option.splits sum.splits if_splits
      dest!: connect_auth_defaultSpace)

lemma Split_example: "Split CHR ''/'' ''db:3301/tester'' = [''db:3301'', ''tester'']"
  by simp

text \<open>
  Claim C9 at the address \<open>db:3301/tester\<close> with options whose \<^verbatim>\<open>DefaultSpace\<close> is
  empty, against a server that sends its greeting: \<^verbatim>\<open>Connect\<close> succeeds, the default
  space of the connection is empty, and the suffix \<open>tester\<close> has been written to the
  caller's options instead (\<^verbatim>\<open>options.DefaultSpace\<close> is assigned, \<^verbatim>\<open>opts.DefaultSpace\<close> is
  read). By \<open>Connect_defaultSpace\<close> the default space of a returned connection is
  always the one the options came with. The second half of the claim holds: see
  \<open>Connect_wrong_space\<close>.
\<close>

theorem Connect_ignores_address_space:
  "map_option defaultSpace
     (resultConn (Connect exampleDial exampleAuthPack okDecode ''db:3301/tester'' (Some zeroOptions)
        :: nat connect_result)) = Some [] \<and>
   DefaultSpace (callerOptions (Connect exampleDial exampleAuthPack okDecode ''db:3301/tester''
        (Some zeroOptions) :: nat connect_result)) = ''tester''"
  by (simp add: Connect_def Let_def zeroOptions_def exampleDial_def greetingSocket_def
      quietSocket_def sock_stream_def ReadAtLeast_def)

lemma Connect_wrong_space:
  assumes "(case optionsArg of None \<Rightarrow> [] | Some given \<Rightarrow> DefaultSpace given) = []"
      and "1 < length (Split CHR ''/'' address)"
      and "Split CHR ''/'' address ! 1 = []"
  shows "resultConn (Connect dial authPack decodeResponse address optionsArg) = None \<and>
         resultErr (Connect dial authPack decodeResponse address optionsArg) =
           Some (ErrorsNew ''Wrong space: '')"
  using assms by (simp add: Connect_def Let_def zeroOptions_def split: option.splits)

lemma Connect_empty_space:
  "Connect dial authPack decodeResponse ''db:3301/'' (Some zeroOptions) =
     \<lparr>resultConn = None, resultErr = Some (ErrorsNew ''Wrong space: ''),
      callerOptions = zeroOptions, resultSocket = None\<rparr>"
  by (simp add: Connect_def Let_def zeroOptions_def)

lemma connect_auth_drops_pack_error:
  "connect_auth authPack decodeResponse options conn sock g =
   connect_auth (\<lambda>user password salt rid space. (fst (authPack user password salt rid space), None))
     decodeResponse options conn sock g"
  by (simp add: connect_auth_def Let_def split_beta cong: option.case_cong sum.case_cong if_cong)

lemma Connect_drops_pack_error:
  "Connect dial authPack decodeResponse address optionsArg =
   Connect dial (\<lambda>user password salt rid space. (fst (authPack user password salt rid space), None))
     decodeResponse address optionsArg"
  unfolding Connect_def connect_auth_drops_pack_error [of authPack, symmetric] by (rule refl)

lemma Connect_failing_auth_pack:
  "resultErr (Connect exampleDial failingAuthPack okDecode ''auth:3301'' (Some userOptions)
        :: nat connect_result) = None \<and>
   map_option requestID (resultConn (Connect exampleDial failingAuthPack okDecode ''auth:3301'' (Some userOptions)
        :: nat connect_result)) = Some 1 \<and>
   map_option written (resultSocket (Connect exampleDial failingAuthPack okDecode ''auth:3301'' (Some userOptions)
        :: nat connect_result)) = Some [] \<and>
   map_option incoming (resultSocket (Connect exampleDial failingAuthPack okDecode ''auth:3301'' (Some userOptions)
        :: nat connect_result)) = Some []"
  by (simp add: Connect_def connect_auth_def Let_def zeroOptions_def userOptions_def exampleDial_def
      authSocket_def quietSocket_def sock_stream_def ReadAtLeast_def failingAuthPack_def okDecode_def
      nextID_def MaxUint32_def sock_Write_def readMessage_def PacketLengthBytes_def bodyLength_def)

lemma connect_auth_written:
  "map_option written (resultSocket (connect_auth authPack decodeResponse options conn sock g)) =
     Some (written (fst (sock_Write sock
       (fst (authPack (User options) (Password options) (Auth g) (fst (nextID conn)) [])))))"
  by (simp add: connect_auth_def connect_failed_def sock_Close_def Let_def split_beta
      split: option.splits sum.splits)

text \<open>
  Claim C10. The error that the authentication packer returns has no effect on
  \<^verbatim>\<open>Connect\<close>: for all arguments, \<^verbatim>\<open>Connect\<close> gives the result it gives with a packer
  that returns the same bytes and no error, so no result of \<^verbatim>\<open>Connect\<close> comes from that
  error. The bytes the packer returned (possibly none) are written to the socket
  whatever the error was. At a packer that fails with no bytes, against a server that
  answers the greeting with a reply for ID 1, \<^verbatim>\<open>Connect\<close> awaits the reply and succeeds.
\<close>

theorem Connect_ignores_auth_pack_error:
  "Connect dial authPack decodeResponse address optionsArg =
     Connect dial (\<lambda>user password salt rid space. (fst (authPack user password salt rid space), None))
       decodeResponse address optionsArg \<and>
   map_option written (resultSocket (connect_auth authPack decodeResponse options conn sock g)) =
     Some (written (fst (sock_Write sock
       (fst (authPack (User options) (Password options) (Auth g) (fst (nextID conn)) []))))) \<and>
   resultErr (Connect exampleDial failingAuthPack okDecode ''auth:3301'' (Some userOptions)
        :: nat connect_result) = None \<and>
   map_option requestID (resultConn (Connect exampleDial failingAuthPack okDecode ''auth:3301''
        (Some userOptions) :: nat connect_result)) = Some 1"
  using Connect_drops_pack_error [of dial authPack decodeResponse address optionsArg]
    connect_auth_written [of authPack decodeResponse options conn sock g]
    Connect_failing_auth_pack
  by (intro conjI) blast+

text \<open>
  A connection that \<^verbatim>\<open>Connect\<close> returns has nothing closed yet, when the dialer hands
  out sockets that have not been closed.
\<close>

lemma connect_auth_opened:
  assumes "resultConn (connect_auth authPack decodeResponse options conn sock g) = Some c"
      and "closeCalls sock = 0" "\<not> closeOnce conn" "\<not> exit conn" "\<not> closed conn"
  shows "opened c"
  using assms
  by (auto simp: connect_auth_def Let_def split_beta opened_def sock_Write_def nextID_def
      split: option.splits sum.splits if_splits)

lemma Connect_opened:
  assumes "resultConn (Connect dial authPack decodeResponse address optionsArg) = Some c"
      and "\<And>a sock. dial a = Inr sock \<Longrightarrow> closeCalls sock = 0"
  shows "opened c"
proof -
  from assms(1) obtain sock where d: "dial (Split CHR ''/'' address ! 0) = Inr sock"
    by (auto simp: Connect_def Let_def split: if_splits sum.splits)
  from assms(2) [OF d] have z: "closeCalls sock = 0" .
  from assms(1) d z show ?thesis
    by (auto simp: Connect_def Let_def opened_def split: if_splits sum.splits
        dest!: connect_auth_opened)
qed

section \<open>Properties of the Router\<close>

lemma threshold_tenth:
  "(readChanThreshold s < length (queue (readChan s))) =
   (capacity (readChan s) < 10 * length (queue (readChan s)))"
  unfolding readChanThreshold_def by presburger

lemma router_select_no_intake:
  assumes "readChanThreshold s < length (queue (readChan s))"
  shows "routerRequestChan s = None"
    and "\<not> case_ready s RequestCase"
    and "router_select Pack RequestCase s = Blocked"
    and "case_ready s ReadCase"
  using assms
  by (auto simp: routerRequestChan_def case_ready_def router_select_def recv_ready_def)

lemma handleReply_frame:
  assumes "handleReply h conn res = Inr (h', conn')"
  shows "requestChan conn' = requestChan conn \<and> requestID conn' = requestID conn"
  using assms
  by (auto simp: handleReply_def and_then_def send_def close_chan_def
      split: option.splits if_splits)

lemma router_select_over_threshold:
  assumes over: "readChanThreshold s < length (queue (readChan s))"
  shows "(case router_select Pack c s of
            Continue s' \<Rightarrow> requestChan (connOf s') = requestChan (connOf s) \<and>
                           requestID (connOf s') = requestID (connOf s) \<and>
                           writeChan s' = writeChan s \<and>
                           c = ReadCase \<and> length (queue (readChan s')) < length (queue (readChan s))
          | Break s' \<Rightarrow> s' = s \<and> c = StopCase
          | Forward r s' \<Rightarrow> False
          | Blocked \<Rightarrow> c \<noteq> ReadCase
          | Panicked p \<Rightarrow> c = ReadCase)"
proof (cases c)
  case RequestCase
  with router_select_no_intake(3) [OF over] show ?thesis by simp
next
  case StopCase
  then show ?thesis by (simp add: router_select_def case_ready_def)
next
  case ReadCase
  from over obtain res rest where q: "queue (readChan s) = res # rest"
    by (cases "queue (readChan s)") auto
  show ?thesis
  proof (cases "handleReply (replyStore s) (connOf s) res")
    case (Inl p)
    with ReadCase q show ?thesis
      by (simp add: router_select_def case_ready_def recv_ready_def)
  next
    case (Inr hc)
    obtain h' conn' where hc: "hc = (h', conn')" by (cases hc)
    from handleReply_frame [OF Inr [unfolded hc]] ReadCase q Inr hc show ?thesis
      by (simp add: router_select_def case_ready_def recv_ready_def)
  qed
qed

lemma router_select_under_threshold:
  assumes "length (queue (readChan s)) \<le> readChanThreshold s"
  shows "routerRequestChan s = Some (requestChan (connOf s))"
    and "case_ready s RequestCase = recv_ready (requestChan (connOf s))"
  using assms by (simp_all add: routerRequestChan_def case_ready_def)

text \<open>
  Claim C4. In an iteration of the Router that finds more responses queued in
  \<^verbatim>\<open>readChan\<close> than a tenth of its capacity (the integer \<^verbatim>\<open>cap(readChan) / 10\<close>, which is
  exceeded exactly when ten times the length exceeds the capacity), the local
  \<^verbatim>\<open>requestChan\<close> is nil: the submission case cannot proceed, whatever case the
  \<^verbatim>\<open>select\<close> takes leaves the submission queue, the ID counter and \<^verbatim>\<open>writeChan\<close> as they
  were and never reaches the forwarding of a request, while the response case is ready
  and, when taken, removes a response from \<^verbatim>\<open>readChan\<close> (or panics inside
  \<open>handleReply\<close>). In an iteration that finds the length at or below the threshold, the
  local \<^verbatim>\<open>requestChan\<close> is \<^verbatim>\<open>conn.requestChan\<close> again, and the submission case is ready
  exactly when that channel has a request queued or is closed.
\<close>

theorem router_backpressure:
  "(readChanThreshold s < length (queue (readChan s)) \<longrightarrow>
      routerRequestChan s = None \<and>
      router_select Pack RequestCase s = Blocked \<and>
      case_ready s ReadCase \<and>
      (\<forall>c. case router_select Pack c s of
              Continue s' \<Rightarrow> requestChan (connOf s') = requestChan (connOf s) \<and>
                             requestID (connOf s') = requestID (connOf s) \<and>
                             writeChan s' = writeChan s \<and>
                             c = ReadCase \<and> length (queue (readChan s')) < length (queue (readChan s))
            | Break s' \<Rightarrow> s' = s \<and> c = StopCase
            | Forward r s' \<Rightarrow> False
            | Blocked \<Rightarrow> c \<noteq> ReadCase
            | Panicked p \<Rightarrow> c = ReadCase)) \<and>
   (length (queue (readChan s)) \<le> readChanThreshold s \<longrightarrow>
      routerRequestChan s = Some (requestChan (connOf s)) \<and>
      case_ready s RequestCase = recv_ready (requestChan (connOf s))) \<and>
   (readChanThreshold s < length (queue (readChan s))) =
     (capacity (readChan s) < 10 * length (queue (readChan s)))"
proof (intro conjI impI allI)
  assume over: "readChanThreshold s < length (queue (readChan s))"
  show "routerRequestChan s = None" by (rule router_select_no_intake(1) [OF over])
  show "router_select Pack RequestCase s = Blocked" by (rule router_select_no_intake(3) [OF over])
  show "case_ready s ReadCase" by (rule router_select_no_intake(4) [OF over])
  fix c
  show "case router_select Pack c s of
              Continue s' \<Rightarrow> requestChan (connOf s') = requestChan (connOf s) \<and>
                             requestID (connOf s') = requestID (connOf s) \<and>
                             writeChan s' = writeChan s \<and>
                             c = ReadCase \<and> length (queue (readChan s')) < length (queue (readChan s))
            | Break s' \<Rightarrow> s' = s \<and> c = StopCase
            | Forward r s' \<Rightarrow> False
            | Blocked \<Rightarrow> c \<noteq> ReadCase
            | Panicked p \<Rightarrow> c = ReadCase"
    by (rule router_select_over_threshold [OF over])
next
  assume under: "length (queue (readChan s)) \<le> readChanThreshold s"
  show "routerRequestChan s = Some (requestChan (connOf s))"
    by (rule router_select_under_threshold(1) [OF under])
  show "case_ready s RequestCase = recv_ready (requestChan (connOf s))"
    by (rule router_select_under_threshold(2) [OF under])
next
  show "(readChanThreshold s < length (queue (readChan s))) =
     (capacity (readChan s) < 10 * length (queue (readChan s)))"
    by (rule threshold_tenth)
qed

lemma loadedPipeline_readChan:
  "queue (readChan (loadedPipeline n)) = replicate n (errorResponse EOF)"
  "readChanThreshold (loadedPipeline n) = 25"
  by (simp_all add: loadedPipeline_def readChanThreshold_def make_chan_def)

lemma loadedPipeline_requestChan:
  "queue (requestChan (connOf (loadedPipeline n))) = [goodRequest]"
  by (simp add: loadedPipeline_def submitted_def startPipeline_def)

text \<open>
  The theorem on a pipeline with one submission waiting: with 26 responses queued (the
  threshold of a queue of capacity 256 is 25) the submission is not taken; with 25 it
  is ready.
\<close>

theorem router_backpressure_witness:
  "readChanThreshold (loadedPipeline 26) < length (queue (readChan (loadedPipeline 26))) \<and>
   routerRequestChan (loadedPipeline 26) = None \<and>
   router_select examplePack RequestCase (loadedPipeline 26) = Blocked \<and>
   case_ready (loadedPipeline 26) ReadCase \<and>
   length (queue (readChan (loadedPipeline 25))) \<le> readChanThreshold (loadedPipeline 25) \<and>
   routerRequestChan (loadedPipeline 25) = Some (requestChan (connOf (loadedPipeline 25))) \<and>
   case_ready (loadedPipeline 25) RequestCase"
proof -
  have over: "readChanThreshold (loadedPipeline 26) < length (queue (readChan (loadedPipeline 26)))"
    by (simp add: loadedPipeline_readChan)
  have under: "length (queue (readChan (loadedPipeline 25))) \<le> readChanThreshold (loadedPipeline 25)"
    by (simp add: loadedPipeline_readChan)
  have rdy: "recv_ready (requestChan (connOf (loadedPipeline 25)))"
    by (simp add: recv_ready_def loadedPipeline_requestChan)
  note A = router_backpressure [of "loadedPipeline 26" examplePack]
  note B = router_backpressure [of "loadedPipeline 25" examplePack]
  from A over have a: "routerRequestChan (loadedPipeline 26) = None"
    "router_select examplePack RequestCase (loadedPipeline 26) = Blocked"
    "case_ready (loadedPipeline 26) ReadCase"
    by blast+
  from B under have b: "routerRequestChan (loadedPipeline 25) = Some (requestChan (connOf (loadedPipeline 25)))"
    "case_ready (loadedPipeline 25) RequestCase = recv_ready (requestChan (connOf (loadedPipeline 25)))"
    by blast+
  from over under a b rdy show ?thesis by blast
qed

section \<open>Properties of the shutdown\<close>

text \<open>The stages leave the lifecycle state of the connection alone.\<close>

lemma lifecycle_nextID: "lifecycle (snd (nextID conn)) = lifecycle conn"
  by (simp add: lifecycle_def)

lemma lifecycle_updates [simp]:
  "lifecycle (conn\<lparr>requests := rs\<rparr>) = lifecycle conn"
  "lifecycle (conn\<lparr>requestChan := ch\<rparr>) = lifecycle conn"
  "lifecycle (conn\<lparr>requestID := i\<rparr>) = lifecycle conn"
  by (simp_all add: lifecycle_def)

lemma evict_lifecycle:
  "evict h conn rid = Inr (h', conn') \<Longrightarrow> lifecycle conn' = lifecycle conn"
  by (auto simp: evict_def and_then_def send_def close_chan_def split: option.splits if_splits)

lemma newRequest_lifecycle:
  assumes "newRequest Pack h conn r = Inr (err, r', h', conn')"
  shows "lifecycle conn' = lifecycle conn"
proof -
  obtain h1 c1 where ev: "evict h (snd (nextID conn)) (fst (nextID conn)) = Inr (h1, c1)"
    using assms by (auto simp: newRequest_unfold and_then_def split: sum.splits)
  from evict_lifecycle [OF ev] have l: "lifecycle c1 = lifecycle conn"
    by (simp add: lifecycle_nextID)
  from assms ev have "conn' = c1 \<or> (\<exists>rs. conn' = c1\<lparr>requests := rs\<rparr>)"
    by (auto simp: newRequest_unfold and_then_def send_def split: option.splits if_splits)
  with l show ?thesis by auto
qed

lemma handleReply_lifecycle:
  "handleReply h conn res = Inr (h', conn') \<Longrightarrow> lifecycle conn' = lifecycle conn"
  by (auto simp: handleReply_def and_then_def send_def close_chan_def split: option.splits if_splits)

lemma router_select_lifecycle:
  assumes "router_select Pack c s = Continue s' \<or> router_select Pack c s = Break s' \<or>
           router_select Pack c s = Forward r s'"
  shows "lifecycle (connOf s') = lifecycle (connOf s)"
  using assms
  by (auto simp: router_select_def split: if_splits select_case.splits list.splits sum.splits
      option.splits dest!: newRequest_lifecycle handleReply_lifecycle)

lemma router_forward_conn:
  assumes "router_forward c r s = Continue s' \<or> router_forward c r s = Break s'"
  shows "connOf s' = connOf s"
  using assms by (auto simp: router_forward_def split: forward_case.splits if_splits)

lemma router_forward_not_Forward: "router_forward c r s \<noteq> Forward r' s'"
  by (auto simp: router_forward_def split: forward_case.splits if_splits)

lemma writer_select_lifecycle:
  assumes "writer_select c s = Continue s' \<or> writer_select c s = Break s'"
  shows "lifecycle (connOf s') = lifecycle (connOf s) \<and> requests (connOf s') = requests (connOf s)"
  using assms
  by (auto simp: writer_select_def lifecycle_def sock_Write_def Let_def
      split: writer_case.splits if_splits list.splits option.splits prod.splits)

lemma writer_select_not_Forward: "writer_select c s \<noteq> Forward r' s'"
  by (auto simp: writer_select_def Let_def
      split: writer_case.splits if_splits list.splits option.splits prod.splits)

text \<open>\<open>stop\<close>: the first call closes \<^verbatim>\<open>exit\<close> and the socket, a later call does nothing.\<close>

lemma stop_first:
  assumes "\<not> closeOnce conn" "\<not> exit conn" "tcpConn conn = Some sock"
  shows "stop conn = Inr (conn\<lparr>exit := True, tcpConn := Some (sock_Close sock), closeOnce := True\<rparr>)"
  using assms by (simp add: stop_def)

lemma stop_again: "closeOnce conn \<Longrightarrow> stop conn = Inr conn"
  by (simp add: stop_def)

lemma stop_idempotent: "stop conn = Inr conn' \<Longrightarrow> stop conn' = Inr conn'"
  by (auto simp: stop_def split: if_splits option.splits)

lemma stop_lifecycle:
  assumes "closeOnce conn = exit conn"
      and "map_option closeCalls (tcpConn conn) = Some (if closeOnce conn then 1 else 0)"
  shows "\<exists>conn'. stop conn = Inr conn' \<and> lifecycle conn' = (True, True, closed conn, Some 1) \<and>
           requests conn' = requests conn \<and> requestChan conn' = requestChan conn \<and>
           (closeOnce conn \<longrightarrow> conn' = conn)"
  using assms
  by (cases "tcpConn conn") (auto simp: stop_def lifecycle_def sock_Close_def)

text \<open>The teardown empties the registry and leaves the rest of the connection alone.\<close>

lemma delete_filter: "AList.delete k al = filter (\<lambda>p. fst p \<noteq> k) al"
  by (induction al) auto

lemma failPending_conn:
  "failPending h conn entries = Inr (h', conn') \<Longrightarrow>
     conn' = conn\<lparr>requests := filter (\<lambda>p. fst p \<notin> fst ` set entries) (requests conn)\<rparr>"
proof (induction entries arbitrary: h conn)
  case Nil
  then show ?case by simp
next
  case (Cons e entries)
  obtain rid req where e: "e = (rid, req)" by (cases e)
  from Cons.prems obtain h1 where
    rest: "failPending h1 (conn\<lparr>requests := AList.delete rid (requests conn)\<rparr>) entries = Inr (h', conn')"
    by (auto simp: e and_then_def split: sum.splits)
  have "filter (\<lambda>p. fst p \<notin> fst ` set entries) (AList.delete rid (requests conn)) =
        filter (\<lambda>p. fst p \<notin> fst ` set (e # entries)) (requests conn)"
    by (auto simp: delete_filter e intro: filter_cong)
  with Cons.IH [OF rest] show ?case by simp
qed

lemma failPending_all:
  assumes "failPending h conn (requests conn) = Inr (h', conn')"
  shows "conn' = conn\<lparr>requests := []\<rparr>"
proof -
  have "filter (\<lambda>p. fst p \<notin> fst ` set (requests conn)) (requests conn) = []"
    by (simp add: filter_empty_conv)
  with failPending_conn [OF assms] show ?thesis by simp
qed

lemma worker_teardown_conn:
  assumes "worker_teardown h conn = Inr (h', conn')"
  shows "conn' = conn\<lparr>requests := [], requestChan := (requestChan conn)\<lparr>queue := []\<rparr>, closed := True\<rparr>"
    and "\<not> closed conn"
proof -
  from assms obtain h1 c1 where fp: "failPending h conn (requests conn) = Inr (h1, c1)"
    by (auto simp: worker_teardown_def and_then_def split: sum.splits)
  from failPending_all [OF fp] have c1: "c1 = conn\<lparr>requests := []\<rparr>" .
  from assms fp c1 show "conn' = conn\<lparr>requests := [], requestChan := (requestChan conn)\<lparr>queue := []\<rparr>, closed := True\<rparr>"
    by (auto simp: worker_teardown_def and_then_def split: sum.splits if_splits)
  from assms fp c1 show "\<not> closed conn"
    by (auto simp: worker_teardown_def and_then_def split: sum.splits if_splits)
qed

text \<open>
  Failing a list of requests: each one's channel ends closed with the connection-closed
  error as its last value; a channel that is already closed is not touched.
\<close>

lemma failQueued_append:
  "failQueued h (xs @ ys) = and_then (failQueued h xs) (\<lambda>h. failQueued h ys)"
  by (induction xs arbitrary: h) (auto simp: and_then_def split: sum.splits)

lemma failQueued_closed_untouched:
  "failQueued h reqs = Inr h' \<Longrightarrow> isClosed (h c) \<Longrightarrow> h' c = h c"
proof (induction reqs arbitrary: h)
  case Nil
  then show ?case by simp
next
  case (Cons req reqs)
  from Cons.prems(1) obtain h2 where
    h2: "h2 = h(replyChan req := (h (replyChan req))
              \<lparr>received := received (h (replyChan req)) @ [errorResponse ConnectionClosed],
               isClosed := True\<rparr>)"
    and op: "\<not> isClosed (h (replyChan req))"
    and rest: "failQueued h2 reqs = Inr h'"
    by (auto simp: and_then_def send_def close_chan_def split: if_splits)
  from op Cons.prems(2) have ne: "c \<noteq> replyChan req" by auto
  then have "isClosed (h2 c)" "h2 c = h c" using Cons.prems(2) by (simp_all add: h2)
  with Cons.IH [OF rest] show ?case by simp
qed

lemma failQueued_delivers:
  "failQueued h reqs = Inr h' \<Longrightarrow> req \<in> set reqs \<Longrightarrow>
     isClosed (h' (replyChan req)) \<and>
     received (h' (replyChan req)) = received (h (replyChan req)) @ [errorResponse ConnectionClosed]"
proof (induction reqs arbitrary: h)
  case Nil
  then show ?case by simp
next
  case (Cons x reqs)
  from Cons.prems(1) obtain h2 where
    h2: "h2 = h(replyChan x := (h (replyChan x))
              \<lparr>received := received (h (replyChan x)) @ [errorResponse ConnectionClosed],
               isClosed := True\<rparr>)"
    and op: "\<not> isClosed (h (replyChan x))"
    and rest: "failQueued h2 reqs = Inr h'"
    by (auto simp: and_then_def send_def close_chan_def split: if_splits)
  have cl: "isClosed (h2 (replyChan x))" by (simp add: h2)
  show ?case
  proof (cases "replyChan req = replyChan x")
    case True
    from failQueued_closed_untouched [OF rest cl] have "h' (replyChan x) = h2 (replyChan x)" .
    with True show ?thesis by (simp add: h2)
  next
    case False
    with Cons.prems(2) have "req \<in> set reqs" by auto
    from Cons.IH [OF rest this] False show ?thesis by (simp add: h2)
  qed
qed

lemma failPending_failQueued:
  "failPending h conn entries = Inr (h', conn') \<Longrightarrow> failQueued h (map snd entries) = Inr h'"
proof (induction entries arbitrary: h conn)
  case Nil
  then show ?case by simp
next
  case (Cons e entries)
  obtain rid req where e: "e = (rid, req)" by (cases e)
  from Cons show ?case
    by (auto simp: e and_then_def split: sum.splits)
qed

lemma worker_teardown_delivers:
  assumes "worker_teardown h conn = Inr (h', conn')"
      and "req \<in> snd ` set (requests conn) \<union> set (queue (requestChan conn))"
  shows "isClosed (h' (replyChan req)) \<and>
         received (h' (replyChan req)) = received (h (replyChan req)) @ [errorResponse ConnectionClosed]"
proof -
  from assms(1) obtain h1 c1 where
    fp: "failPending h conn (requests conn) = Inr (h1, c1)" and
    fq: "failQueued h1 (queue (requestChan c1)) = Inr h'"
    by (auto simp: worker_teardown_def and_then_def split: sum.splits if_splits)
  from failPending_all [OF fp] have "requestChan c1 = requestChan conn" by simp
  with fq have b: "failQueued h1 (queue (requestChan conn)) = Inr h'" by simp
  from failPending_failQueued [OF fp] have a: "failQueued h (map snd (requests conn)) = Inr h1" .
  from a b have "failQueued h (map snd (requests conn) @ queue (requestChan conn)) = Inr h'"
    by (simp add: failQueued_append and_then_def)
  moreover from assms(2) have "req \<in> set (map snd (requests conn) @ queue (requestChan conn))"
    by auto
  ultimately show ?thesis by (rule failQueued_delivers)
qed

text \<open>The invariant is kept by every step.\<close>

lemma unfinished_Returned [simp]:
  "unfinished Running = 1" "unfinished Returned = 1" "unfinished Stopped = 1" "unfinished Finished = 0"
  by (simp_all add: unfinished_def)

lemma inv_closed_finished:
  assumes "lifecycle_inv w" "closed (connOf (pipe w))"
  shows "stages w st = Finished"
proof -
  from assms have "unfinished (stages w Router) + unfinished (stages w Writer) +
      unfinished (stages w Reader) = 0"
    by (simp add: lifecycle_inv_def Let_def)
  then have "unfinished (stages w st) = 0" by (cases st) simp_all
  then show ?thesis by (simp add: unfinished_def split: if_splits)
qed

lemma lifecycle_invI:
  assumes "closeOnce (connOf (pipe w)) = exit (connOf (pipe w))"
      and "map_option closeCalls (tcpConn (connOf (pipe w))) =
             Some (if closeOnce (connOf (pipe w)) then 1 else 0)"
      and "\<And>s. stages w s = Stopped \<or> stages w s = Finished \<Longrightarrow> closeOnce (connOf (pipe w))"
      and "0 < closeWaiting w + closeReturned w \<Longrightarrow> closeOnce (connOf (pipe w))"
      and "wg w = unfinished (stages w Router) + unfinished (stages w Writer) +
             unfinished (stages w Reader)"
      and "closed (connOf (pipe w)) \<Longrightarrow> wg w = 0 \<and> requests (connOf (pipe w)) = []"
      and "0 < closeReturned w \<Longrightarrow> closed (connOf (pipe w))"
  shows "lifecycle_inv w"
  unfolding lifecycle_inv_def Let_def
  apply (intro conjI allI impI)
  apply (rule assms(1))
  apply (rule assms(2))
  apply (erule assms(3))
  apply (erule assms(4))
  apply (rule assms(5))
  apply (erule assms(6) [THEN conjunct1])
  apply (erule assms(6) [THEN conjunct2])
  apply (erule assms(7))
  done

lemma lifecycle_invD:
  assumes "lifecycle_inv w"
  shows "closeOnce (connOf (pipe w)) = exit (connOf (pipe w))"
    and "map_option closeCalls (tcpConn (connOf (pipe w))) =
             Some (if closeOnce (connOf (pipe w)) then 1 else 0)"
    and "stages w s = Stopped \<or> stages w s = Finished \<Longrightarrow> closeOnce (connOf (pipe w))"
    and "0 < closeWaiting w + closeReturned w \<Longrightarrow> closeOnce (connOf (pipe w))"
    and "wg w = unfinished (stages w Router) + unfinished (stages w Writer) +
             unfinished (stages w Reader)"
    and "closed (connOf (pipe w)) \<Longrightarrow> wg w = 0 \<and> requests (connOf (pipe w)) = []"
    and "0 < closeReturned w \<Longrightarrow> closed (connOf (pipe w))"
proof -
  note inv = assms [unfolded lifecycle_inv_def Let_def]
  show "closeOnce (connOf (pipe w)) = exit (connOf (pipe w))"
    by (rule inv [THEN conjunct1])
  show "map_option closeCalls (tcpConn (connOf (pipe w))) =
             Some (if closeOnce (connOf (pipe w)) then 1 else 0)"
    by (rule inv [THEN conjunct2, THEN conjunct1])
  show "stages w s = Stopped \<or> stages w s = Finished \<Longrightarrow> closeOnce (connOf (pipe w))"
    by (rule inv [THEN conjunct2, THEN conjunct2, THEN conjunct1, THEN spec, THEN mp])
  show "0 < closeWaiting w + closeReturned w \<Longrightarrow> closeOnce (connOf (pipe w))"
    by (rule inv [THEN conjunct2, THEN conjunct2, THEN conjunct2, THEN conjunct1, THEN mp])
  show "wg w = unfinished (stages w Router) + unfinished (stages w Writer) +
             unfinished (stages w Reader)"
    by (rule inv [THEN conjunct2, THEN conjunct2, THEN conjunct2, THEN conjunct2, THEN conjunct1])
  show "closed (connOf (pipe w)) \<Longrightarrow> wg w = 0 \<and> requests (connOf (pipe w)) = []"
    by (rule inv [THEN conjunct2, THEN conjunct2, THEN conjunct2, THEN conjunct2, THEN conjunct2,
          THEN conjunct1, THEN mp])
  show "0 < closeReturned w \<Longrightarrow> closed (connOf (pipe w))"
    by (rule inv [THEN conjunct2, THEN conjunct2, THEN conjunct2, THEN conjunct2, THEN conjunct2,
          THEN conjunct2, THEN mp])
qed

lemma inv_frame:
  assumes inv: "lifecycle_inv w"
      and lc: "lifecycle (connOf (pipe w')) = lifecycle (connOf (pipe w))"
      and rq: "closed (connOf (pipe w)) \<longrightarrow> requests (connOf (pipe w')) = requests (connOf (pipe w))"
      and st: "stages w' = stages w \<or>
               (\<exists>s. stages w s = Running \<and> stages w' = (stages w)(s := Returned))"
      and rest: "wg w' = wg w" "closeWaiting w' = closeWaiting w" "closeReturned w' = closeReturned w"
  shows "lifecycle_inv w'"
proof (rule lifecycle_invI)
  note D = lifecycle_invD [OF inv]
  from lc have f: "closeOnce (connOf (pipe w')) = closeOnce (connOf (pipe w))"
    "exit (connOf (pipe w')) = exit (connOf (pipe w))"
    "closed (connOf (pipe w')) = closed (connOf (pipe w))"
    "map_option closeCalls (tcpConn (connOf (pipe w'))) = map_option closeCalls (tcpConn (connOf (pipe w)))"
    by (simp_all add: lifecycle_def)
  from st have u: "unfinished (stages w' s) = unfinished (stages w s)" for s
    by (auto simp: unfinished_def split: if_splits)
  from st have p: "stages w' s = Stopped \<or> stages w' s = Finished \<Longrightarrow>
      stages w s = Stopped \<or> stages w s = Finished" for s
    by (auto split: if_splits)
  show "closeOnce (connOf (pipe w')) = exit (connOf (pipe w'))"
    using D(1) by (simp add: f)
  show "map_option closeCalls (tcpConn (connOf (pipe w'))) =
             Some (if closeOnce (connOf (pipe w')) then 1 else 0)"
    using D(2) by (simp only: f)
  show "closeOnce (connOf (pipe w'))" if "stages w' s = Stopped \<or> stages w' s = Finished" for s
    using D(3) [OF p [OF that]] by (simp add: f)
  show "closeOnce (connOf (pipe w'))" if "0 < closeWaiting w' + closeReturned w'"
    using D(4) that by (simp add: f rest)
  show "wg w' = unfinished (stages w' Router) + unfinished (stages w' Writer) +
             unfinished (stages w' Reader)"
    using D(5) by (simp add: u rest)
  show "wg w' = 0 \<and> requests (connOf (pipe w')) = []" if "closed (connOf (pipe w'))"
    using D(6) rq that by (simp add: f rest)
  show "closed (connOf (pipe w'))" if "0 < closeReturned w'"
    using D(7) that by (simp add: f rest)
qed

lemma finish_select_Next:
  assumes "finish_select st r w = Next w'"
  shows "(\<exists>p. r = Continue p \<and> w' = w\<lparr>pipe := p\<rparr>) \<or>
         (\<exists>p. r = Break p \<and> w' = w\<lparr>pipe := p, stages := (stages w)(st := Returned)\<rparr>) \<or>
         (\<exists>req p. r = Forward req p \<and> w' = w\<lparr>pipe := p, forwarding := Some req\<rparr>)"
  using assms by (cases r) (auto simp: finish_select_def)

lemma inv_Submit:
  assumes "lifecycle_inv w" "step Pack (Submit r) w = Next w'"
  shows "lifecycle_inv w'"
proof -
  from assms(2) have w': "w' = with_conn w ((connOf (pipe w))\<lparr>requestChan :=
      (requestChan (connOf (pipe w)))\<lparr>queue := queue (requestChan (connOf (pipe w))) @ [r]\<rparr>\<rparr>)"
    by (simp add: step_def Let_def split: if_splits)
  show ?thesis
    by (rule inv_frame [OF assms(1)]) (simp_all add: w' with_conn_def)
qed

lemma inv_RouterSelect:
  assumes inv: "lifecycle_inv w" and st: "step Pack (RouterSelect c) w = Next w'"
  shows "lifecycle_inv w'"
proof -
  from st have run: "stages w Router = Running"
    and fs: "finish_select Router (router_select Pack c (pipe w)) w = Next w'"
    by (simp_all add: step_def Let_def split: if_splits)
  from run inv_closed_finished [OF inv, of Router] have nc: "\<not> closed (connOf (pipe w))"
    by auto
  from finish_select_Next [OF fs] show ?thesis
  proof (elim disjE exE conjE)
    fix p assume r: "router_select Pack c (pipe w) = Continue p" and w': "w' = w\<lparr>pipe := p\<rparr>"
    from router_select_lifecycle [of Pack c "pipe w" p] r
    have "lifecycle (connOf p) = lifecycle (connOf (pipe w))" by simp
    then show ?thesis
      by (intro inv_frame [OF inv]) (simp_all add: w' nc)
  next
    fix p assume r: "router_select Pack c (pipe w) = Break p"
      and w': "w' = w\<lparr>pipe := p, stages := (stages w)(Router := Returned)\<rparr>"
    from router_select_lifecycle [of Pack c "pipe w" p] r
    have "lifecycle (connOf p) = lifecycle (connOf (pipe w))" by simp
    then show ?thesis
      using run by (intro inv_frame [OF inv]) (auto simp: w' nc)
  next
    fix req p assume r: "router_select Pack c (pipe w) = Forward req p"
      and w': "w' = w\<lparr>pipe := p, forwarding := Some req\<rparr>"
    from router_select_lifecycle [of Pack c "pipe w" p req] r
    have "lifecycle (connOf p) = lifecycle (connOf (pipe w))" by simp
    then show ?thesis
      by (intro inv_frame [OF inv]) (simp_all add: w' nc)
  qed
qed

lemma inv_RouterForward:
  assumes inv: "lifecycle_inv w" and st: "step Pack (RouterForward c) w = Next w'"
  shows "lifecycle_inv w'"
proof -
  from st obtain r where run: "stages w Router = Running"
    and fs: "finish_select Router (router_forward c r (pipe w)) (w\<lparr>forwarding := None\<rparr>) = Next w'"
    by (auto simp: step_def Let_def split: if_splits option.splits)
  from finish_select_Next [OF fs] show ?thesis
  proof (elim disjE exE conjE)
    fix p assume r: "router_forward c r (pipe w) = Continue p"
      and w': "w' = w\<lparr>forwarding := None, pipe := p\<rparr>"
    from router_forward_conn [of c r "pipe w" p] r have "connOf p = connOf (pipe w)" by simp
    then show ?thesis
      by (intro inv_frame [OF inv]) (simp_all add: w')
  next
    fix p assume r: "router_forward c r (pipe w) = Break p"
      and w': "w' = w\<lparr>forwarding := None, pipe := p, stages := (stages (w\<lparr>forwarding := None\<rparr>))(Router := Returned)\<rparr>"
    from router_forward_conn [of c r "pipe w" p] r have "connOf p = connOf (pipe w)" by simp
    then show ?thesis
      using run by (intro inv_frame [OF inv]) (auto simp: w')
  next
    fix req p assume "router_forward c r (pipe w) = Forward req p"
    then show ?thesis by (simp add: router_forward_not_Forward)
  qed
qed

lemma inv_WriterSelect:
  assumes inv: "lifecycle_inv w" and st: "step Pack (WriterSelect c) w = Next w'"
  shows "lifecycle_inv w'"
proof -
  from st have run: "stages w Writer = Running"
    and fs: "finish_select Writer (writer_select c (pipe w)) w = Next w'"
    by (simp_all add: step_def Let_def split: if_splits)
  from finish_select_Next [OF fs] show ?thesis
  proof (elim disjE exE conjE)
    fix p assume r: "writer_select c (pipe w) = Continue p" and w': "w' = w\<lparr>pipe := p\<rparr>"
    from writer_select_lifecycle [of c "pipe w" p] r
    have "lifecycle (connOf p) = lifecycle (connOf (pipe w))"
      "requests (connOf p) = requests (connOf (pipe w))" by simp_all
    then show ?thesis
      by (intro inv_frame [OF inv]) (simp_all add: w')
  next
    fix p assume r: "writer_select c (pipe w) = Break p"
      and w': "w' = w\<lparr>pipe := p, stages := (stages w)(Writer := Returned)\<rparr>"
    from writer_select_lifecycle [of c "pipe w" p] r
    have "lifecycle (connOf p) = lifecycle (connOf (pipe w))"
      "requests (connOf p) = requests (connOf (pipe w))" by simp_all
    then show ?thesis
      using run by (intro inv_frame [OF inv]) (auto simp: w')
  next
    fix req p assume "writer_select c (pipe w) = Forward req p"
    then show ?thesis by (simp add: writer_select_not_Forward)
  qed
qed

lemma inv_ReaderRun:
  assumes inv: "lifecycle_inv w" and st: "step Pack ReaderRun w = Next w'"
  shows "lifecycle_inv w'"
proof -
  from st obtain sock stream rc where run: "stages w Reader = Running"
    and sock: "tcpConn (connOf (pipe w)) = Some sock"
    and w': "w' = w\<lparr>pipe := (pipe w)
                 \<lparr>connOf := (connOf (pipe w))\<lparr>tcpConn := Some (sock\<lparr>incoming := stream\<rparr>)\<rparr>,
                  readChan := rc\<rparr>,
               stages := (stages w)(Reader := Returned)\<rparr>"
    by (auto simp: step_def Let_def split: if_splits option.splits sum.splits)
  show ?thesis
    using run sock by (intro inv_frame [OF inv]) (auto simp: w' lifecycle_def)
qed

lemma stop_in_inv:
  assumes inv: "lifecycle_inv w"
  obtains conn' where "stop (connOf (pipe w)) = Inr conn'"
    "closeOnce conn'" "exit conn'" "closed conn' = closed (connOf (pipe w))"
    "map_option closeCalls (tcpConn conn') = Some 1"
    "requests conn' = requests (connOf (pipe w))"
    "closeOnce (connOf (pipe w)) \<Longrightarrow> conn' = connOf (pipe w)"
proof -
  note D = lifecycle_invD [OF inv]
  from stop_lifecycle [OF D(1) D(2)] obtain conn' where
    "stop (connOf (pipe w)) = Inr conn'"
    "lifecycle conn' = (True, True, closed (connOf (pipe w)), Some 1)"
    "requests conn' = requests (connOf (pipe w))"
    "closeOnce (connOf (pipe w)) \<longrightarrow> conn' = connOf (pipe w)"
    by blast
  then show ?thesis
    by (intro that [of conn']) (simp_all add: lifecycle_def)
qed

lemma inv_StageStop:
  assumes inv: "lifecycle_inv w" and st: "step Pack (StageStop s) w = Next w'"
  shows "lifecycle_inv w'"
proof -
  note D = lifecycle_invD [OF inv]
  obtain conn' where c: "stop (connOf (pipe w)) = Inr conn'"
    "closeOnce conn'" "exit conn'" "closed conn' = closed (connOf (pipe w))"
    "map_option closeCalls (tcpConn conn') = Some 1"
    "requests conn' = requests (connOf (pipe w))"
    by (rule stop_in_inv [OF inv])
  from st c(1) have ret: "stages w s = Returned"
    and w': "w' = (with_conn w conn')\<lparr>stages := (stages w)(s := Stopped)\<rparr>"
    by (simp_all add: step_def Let_def split: if_splits)
  have u: "unfinished (stages w' t) = unfinished (stages w t)" for t
    using ret by (simp add: w' with_conn_def unfinished_def)
  show ?thesis
  proof (rule lifecycle_invI)
    show "closeOnce (connOf (pipe w')) = exit (connOf (pipe w'))"
      using c by (simp add: w' with_conn_def)
    show "map_option closeCalls (tcpConn (connOf (pipe w'))) =
             Some (if closeOnce (connOf (pipe w')) then 1 else 0)"
      using c by (simp add: w' with_conn_def)
    show "closeOnce (connOf (pipe w'))" if "stages w' t = Stopped \<or> stages w' t = Finished" for t
      using c by (simp add: w' with_conn_def)
    show "closeOnce (connOf (pipe w'))" if "0 < closeWaiting w' + closeReturned w'"
      using c by (simp add: w' with_conn_def)
    show "wg w' = unfinished (stages w' Router) + unfinished (stages w' Writer) +
             unfinished (stages w' Reader)"
      unfolding u using D(5) by (simp add: w' with_conn_def)
    show "wg w' = 0 \<and> requests (connOf (pipe w')) = []" if "closed (connOf (pipe w'))"
      using D(6) c that by (simp add: w' with_conn_def)
    show "closed (connOf (pipe w'))" if "0 < closeReturned w'"
      using D(7) c that by (simp add: w' with_conn_def)
  qed
qed

lemma inv_StageDone:
  assumes inv: "lifecycle_inv w" and st: "step Pack (StageDone s) w = Next w'"
  shows "lifecycle_inv w'"
proof -
  note D = lifecycle_invD [OF inv]
  from st have stp: "stages w s = Stopped" and pos: "wg w \<noteq> 0"
    and w': "w' = w\<lparr>wg := wg w - 1, stages := (stages w)(s := Finished)\<rparr>"
    by (simp_all add: step_def Let_def split: if_splits)
  from D(3) [of s] stp have once: "closeOnce (connOf (pipe w))" by simp
  from D(6) pos have nc: "\<not> closed (connOf (pipe w))" by auto
  show ?thesis
  proof (rule lifecycle_invI)
    show "closeOnce (connOf (pipe w')) = exit (connOf (pipe w'))"
      using D(1) by (simp add: w')
    show "map_option closeCalls (tcpConn (connOf (pipe w'))) =
             Some (if closeOnce (connOf (pipe w')) then 1 else 0)"
      using D(2) by (simp add: w')
    show "closeOnce (connOf (pipe w'))" if "stages w' t = Stopped \<or> stages w' t = Finished" for t
      using once by (simp add: w')
    show "closeOnce (connOf (pipe w'))" if "0 < closeWaiting w' + closeReturned w'"
      using once by (simp add: w')
    show "wg w' = unfinished (stages w' Router) + unfinished (stages w' Writer) +
             unfinished (stages w' Reader)"
      using D(5) stp by (cases s) (simp_all add: w')
    show "wg w' = 0 \<and> requests (connOf (pipe w')) = []" if "closed (connOf (pipe w'))"
      using nc that by (simp add: w')
    show "closed (connOf (pipe w'))" if "0 < closeReturned w'"
      using D(7) that by (simp add: w')
  qed
qed

lemma inv_Teardown:
  assumes inv: "lifecycle_inv w" and st: "step Pack Teardown w = Next w'"
  shows "lifecycle_inv w' \<and> closed (connOf (pipe w'))"
proof -
  note D = lifecycle_invD [OF inv]
  from st obtain h' conn' where zero: "wg w = 0"
    and td: "worker_teardown (replyStore (pipe w)) (connOf (pipe w)) = Inr (h', conn')"
    and w': "w' = w\<lparr>pipe := (pipe w)\<lparr>connOf := conn', replyStore := h'\<rparr>\<rparr>"
    by (auto simp: step_def Let_def split: if_splits sum.splits)
  note c = worker_teardown_conn(1) [OF td]
  show ?thesis
  proof (rule conjI, rule lifecycle_invI)
    show "closeOnce (connOf (pipe w')) = exit (connOf (pipe w'))"
      using D(1) by (simp add: w' c)
    show "map_option closeCalls (tcpConn (connOf (pipe w'))) =
             Some (if closeOnce (connOf (pipe w')) then 1 else 0)"
      using D(2) by (simp add: w' c)
    show "closeOnce (connOf (pipe w'))" if "stages w' t = Stopped \<or> stages w' t = Finished" for t
      using D(3) [of t] that by (simp add: w' c)
    show "closeOnce (connOf (pipe w'))" if "0 < closeWaiting w' + closeReturned w'"
      using D(4) that by (simp add: w' c)
    show "wg w' = unfinished (stages w' Router) + unfinished (stages w' Writer) +
             unfinished (stages w' Reader)"
      using D(5) by (simp add: w')
    show "wg w' = 0 \<and> requests (connOf (pipe w')) = []" if "closed (connOf (pipe w'))"
      using zero by (simp add: w' c)
    show "closed (connOf (pipe w'))" if "0 < closeReturned w'"
      by (simp add: w' c)
    show "closed (connOf (pipe w'))"
      by (simp add: w' c)
  qed
qed

lemma inv_CloseCall:
  assumes inv: "lifecycle_inv w" and st: "step Pack CloseCall w = Next w'"
  shows "lifecycle_inv w'"
proof -
  note D = lifecycle_invD [OF inv]
  obtain conn' where c: "stop (connOf (pipe w)) = Inr conn'"
    "closeOnce conn'" "exit conn'" "closed conn' = closed (connOf (pipe w))"
    "map_option closeCalls (tcpConn conn') = Some 1"
    "requests conn' = requests (connOf (pipe w))"
    by (rule stop_in_inv [OF inv])
  from st c(1) have w': "w' = (with_conn w conn')\<lparr>closeWaiting := closeWaiting w + 1\<rparr>"
    by (simp add: step_def Let_def)
  show ?thesis
  proof (rule lifecycle_invI)
    show "closeOnce (connOf (pipe w')) = exit (connOf (pipe w'))"
      using c by (simp add: w' with_conn_def)
    show "map_option closeCalls (tcpConn (connOf (pipe w'))) =
             Some (if closeOnce (connOf (pipe w')) then 1 else 0)"
      using c by (simp add: w' with_conn_def)
    show "closeOnce (connOf (pipe w'))" if "stages w' t = Stopped \<or> stages w' t = Finished" for t
      using c by (simp add: w' with_conn_def)
    show "closeOnce (connOf (pipe w'))" if "0 < closeWaiting w' + closeReturned w'"
      using c by (simp add: w' with_conn_def)
    show "wg w' = unfinished (stages w' Router) + unfinished (stages w' Writer) +
             unfinished (stages w' Reader)"
      using D(5) by (simp add: w' with_conn_def)
    show "wg w' = 0 \<and> requests (connOf (pipe w')) = []" if "closed (connOf (pipe w'))"
      using D(6) c that by (simp add: w' with_conn_def)
    show "closed (connOf (pipe w'))" if "0 < closeReturned w'"
      using D(7) c that by (simp add: w' with_conn_def)
  qed
qed

lemma inv_CloseReturn:
  assumes inv: "lifecycle_inv w" and st: "step Pack CloseReturn w = Next w'"
  shows "lifecycle_inv w'"
proof -
  note D = lifecycle_invD [OF inv]
  from st have cl: "closed (connOf (pipe w))" and pos: "0 < closeWaiting w"
    and w': "w' = w\<lparr>closeWaiting := closeWaiting w - 1, closeReturned := closeReturned w + 1\<rparr>"
    by (simp_all add: step_def Let_def Close_can_return_def split: if_splits)
  from D(4) pos have once: "closeOnce (connOf (pipe w))" by simp
  show ?thesis
  proof (rule lifecycle_invI)
    show "closeOnce (connOf (pipe w')) = exit (connOf (pipe w'))"
      using D(1) by (simp add: w')
    show "map_option closeCalls (tcpConn (connOf (pipe w'))) =
             Some (if closeOnce (connOf (pipe w')) then 1 else 0)"
      using D(2) by (simp add: w')
    show "closeOnce (connOf (pipe w'))" if "stages w' t = Stopped \<or> stages w' t = Finished" for t
      using once by (simp add: w')
    show "closeOnce (connOf (pipe w'))" if "0 < closeWaiting w' + closeReturned w'"
      using once by (simp add: w')
    show "wg w' = unfinished (stages w' Router) + unfinished (stages w' Writer) +
             unfinished (stages w' Reader)"
      using D(5) by (simp add: w')
    show "wg w' = 0 \<and> requests (connOf (pipe w')) = []" if "closed (connOf (pipe w'))"
      using D(6) cl by (simp add: w')
    show "closed (connOf (pipe w'))" if "0 < closeReturned w'"
      using cl by (simp add: w')
  qed
qed

lemma step_inv:
  assumes "lifecycle_inv w" "step Pack e w = Next w'"
  shows "lifecycle_inv w'"
proof (cases e)
  case (Submit r)
  with assms show ?thesis by (auto intro: inv_Submit)
next
  case (RouterSelect c)
  with assms show ?thesis by (auto intro: inv_RouterSelect)
next
  case (RouterForward c)
  with assms show ?thesis by (auto intro: inv_RouterForward)
next
  case (WriterSelect c)
  with assms show ?thesis by (auto intro: inv_WriterSelect)
next
  case ReaderRun
  with assms show ?thesis by (auto intro: inv_ReaderRun)
next
  case (StageStop s)
  with assms show ?thesis by (auto intro: inv_StageStop)
next
  case (StageDone s)
  with assms show ?thesis by (auto intro: inv_StageDone)
next
  case Teardown
  with assms inv_Teardown [of w Pack w'] show ?thesis by simp
next
  case CloseCall
  with assms show ?thesis by (auto intro: inv_CloseCall)
next
  case CloseReturn
  with assms show ?thesis by (auto intro: inv_CloseReturn)
qed

lemma run_inv:
  "lifecycle_inv w \<Longrightarrow> run Pack evs w = Next w' \<Longrightarrow> lifecycle_inv w'"
proof (induction evs arbitrary: w)
  case Nil
  then show ?case by simp
next
  case (Cons e evs)
  from Cons.prems(2) obtain w1 where s: "step Pack e w = Next w1" and r: "run Pack evs w1 = Next w'"
    by (auto split: outcome.splits)
  from step_inv [OF Cons.prems(1) s] have "lifecycle_inv w1" .
  from Cons.IH [OF this r] show ?case .
qed

lemma worker_start_inv: "opened conn \<Longrightarrow> lifecycle_inv (worker_start h conn)"
  by (rule lifecycle_invI)
    (auto simp: opened_def worker_start_def split: option.splits)

lemma step_close_count:
  assumes "step Pack e w = Next w'"
  shows "closeWaiting w' + closeReturned w' =
         closeWaiting w + closeReturned w + (if e = CloseCall then 1 else 0)"
proof (cases e)
  case (Submit r)
  with assms show ?thesis by (auto simp: step_def Let_def with_conn_def split: if_splits)
next
  case (RouterSelect c)
  with assms have "finish_select Router (router_select Pack c (pipe w)) w = Next w'"
    by (simp add: step_def Let_def split: if_splits)
  from finish_select_Next [OF this] RouterSelect show ?thesis by auto
next
  case (RouterForward c)
  with assms obtain r where
    "finish_select Router (router_forward c r (pipe w)) (w\<lparr>forwarding := None\<rparr>) = Next w'"
    by (auto simp: step_def Let_def split: if_splits option.splits)
  from finish_select_Next [OF this] RouterForward show ?thesis by auto
next
  case (WriterSelect c)
  with assms have "finish_select Writer (writer_select c (pipe w)) w = Next w'"
    by (simp add: step_def Let_def split: if_splits)
  from finish_select_Next [OF this] WriterSelect show ?thesis by auto
next
  case ReaderRun
  with assms show ?thesis
    by (auto simp: step_def Let_def split: if_splits option.splits sum.splits)
next
  case (StageStop s)
  with assms show ?thesis
    by (auto simp: step_def Let_def with_conn_def split: if_splits sum.splits)
next
  case (StageDone s)
  with assms show ?thesis by (auto simp: step_def Let_def split: if_splits)
next
  case Teardown
  with assms show ?thesis by (auto simp: step_def Let_def split: if_splits sum.splits)
next
  case CloseCall
  with assms show ?thesis by (auto simp: step_def Let_def with_conn_def split: sum.splits)
next
  case CloseReturn
  with assms show ?thesis by (auto simp: step_def Let_def split: if_splits)
qed

lemma run_close_count:
  "run Pack evs w = Next w' \<Longrightarrow>
     closeWaiting w' + closeReturned w' = closeWaiting w + closeReturned w + count_list evs CloseCall"
proof (induction evs arbitrary: w)
  case Nil
  then show ?case by simp
next
  case (Cons e evs)
  from Cons.prems obtain w1 where s: "step Pack e w = Next w1" and r: "run Pack evs w1 = Next w'"
    by (auto split: outcome.splits)
  from Cons.IH [OF r] step_close_count [OF s] show ?case by simp
qed

lemma CloseCall_never_crashes:
  assumes inv: "lifecycle_inv w"
  shows "\<exists>w'. step Pack CloseCall w = Next w' \<and>
           (exit (connOf (pipe w)) \<longrightarrow> w' = w\<lparr>closeWaiting := closeWaiting w + 1\<rparr>)"
proof -
  note D = lifecycle_invD [OF inv]
  from stop_lifecycle [OF D(1) D(2)] obtain conn' where c: "stop (connOf (pipe w)) = Inr conn'"
    "closeOnce (connOf (pipe w)) \<longrightarrow> conn' = connOf (pipe w)"
    by blast
  from D(1) c show ?thesis
    by (simp add: step_def Let_def with_conn_def)
qed

text \<open>
  Claim C8. Start \<^verbatim>\<open>worker\<close> on a connection as \<^verbatim>\<open>Connect\<close> returns it and let the
  goroutines take any steps, with any number of calls of \<^verbatim>\<open>Close\<close> among them, without a
  panic. Then \<^verbatim>\<open>exit\<close> has been closed exactly if the \<^verbatim>\<open>sync.Once\<close> has run, and the
  socket has been closed once in that case and not at all otherwise, however many calls
  of \<^verbatim>\<open>Close\<close> there were; after one call or more, \<^verbatim>\<open>exit\<close> is closed. One more call of
  \<^verbatim>\<open>Close\<close> never panics, and once \<^verbatim>\<open>exit\<close> is closed it changes nothing but the number
  of waiting callers; nor does the \<open>stop\<close> of a stage ever panic. The receive that ends a call of \<^verbatim>\<open>Close\<close> can proceed only when
  \<^verbatim>\<open>closed\<close> is closed, so if any call has returned then \<^verbatim>\<open>closed\<close> is closed; and when
  \<^verbatim>\<open>closed\<close> is closed, all three stages have finished, the \<^verbatim>\<open>WaitGroup\<close> is at zero and
  the registry is empty. The step that closes \<^verbatim>\<open>closed\<close> is the teardown, which runs while
  it is still open and gives every request in the registry and in the submission queue
  the connection-closed error as the last value of its channel, which it closes.
\<close>

theorem Close_teardown_once:
  assumes op: "opened conn" and run: "run Pack evs (worker_start h conn) = Next w"
  shows "exit (connOf (pipe w)) = closeOnce (connOf (pipe w)) \<and>
         map_option closeCalls (tcpConn (connOf (pipe w))) =
           Some (if exit (connOf (pipe w)) then 1 else 0) \<and>
         closeWaiting w + closeReturned w = count_list evs CloseCall \<and>
         (0 < count_list evs CloseCall \<longrightarrow> exit (connOf (pipe w))) \<and>
         (\<exists>w'. step Pack CloseCall w = Next w' \<and>
               (exit (connOf (pipe w)) \<longrightarrow> w' = w\<lparr>closeWaiting := closeWaiting w + 1\<rparr>)) \<and>
         (\<forall>st p. step Pack (StageStop st) w \<noteq> Crash p) \<and>
         (step Pack CloseReturn w \<noteq> Disabled \<longrightarrow> closed (connOf (pipe w))) \<and>
         (0 < closeReturned w \<longrightarrow> closed (connOf (pipe w))) \<and>
         (closed (connOf (pipe w)) \<longrightarrow>
            (\<forall>st. stages w st = Finished) \<and> wg w = 0 \<and> requests (connOf (pipe w)) = [] \<and>
            exit (connOf (pipe w))) \<and>
         (\<forall>w' req. step Pack Teardown w = Next w' \<and>
              req \<in> snd ` set (requests (connOf (pipe w))) \<union> set (queue (requestChan (connOf (pipe w)))) \<longrightarrow>
              closed (connOf (pipe w')) \<and> \<not> closed (connOf (pipe w)) \<and>
              isClosed (replyStore (pipe w') (replyChan req)) \<and>
              received (replyStore (pipe w') (replyChan req)) =
                received (replyStore (pipe w) (replyChan req)) @ [errorResponse ConnectionClosed])"
proof -
  have inv0: "lifecycle_inv (worker_start h conn)" by (rule worker_start_inv [OF op])
  have inv: "lifecycle_inv w" by (rule run_inv [OF inv0 run])
  note D = lifecycle_invD [OF inv]
  have cnt: "closeWaiting w + closeReturned w = count_list evs CloseCall"
    using run_close_count [OF run] by (simp add: worker_start_def)
  have c1: "exit (connOf (pipe w)) = closeOnce (connOf (pipe w))" using D(1) by simp
  have c2: "map_option closeCalls (tcpConn (connOf (pipe w))) =
           Some (if exit (connOf (pipe w)) then 1 else 0)"
    using D(2) by (simp only: c1)
  have c4: "0 < count_list evs CloseCall \<longrightarrow> exit (connOf (pipe w))"
    using D(4) cnt c1 by simp
  have c5: "\<exists>w'. step Pack CloseCall w = Next w' \<and>
               (exit (connOf (pipe w)) \<longrightarrow> w' = w\<lparr>closeWaiting := closeWaiting w + 1\<rparr>)"
    by (rule CloseCall_never_crashes [OF inv])
  have c5': "\<forall>st p. step Pack (StageStop st) w \<noteq> Crash p"
  proof -
    from stop_lifecycle [OF D(1) D(2)] obtain conn' where "stop (connOf (pipe w)) = Inr conn'"
      by blast
    then show ?thesis by (simp add: step_def Let_def)
  qed
  have c6: "step Pack CloseReturn w \<noteq> Disabled \<longrightarrow> closed (connOf (pipe w))"
    by (simp add: step_def Let_def Close_can_return_def)
  have c7: "0 < closeReturned w \<longrightarrow> closed (connOf (pipe w))" using D(7) by simp
  have c8: "closed (connOf (pipe w)) \<longrightarrow>
            (\<forall>st. stages w st = Finished) \<and> wg w = 0 \<and> requests (connOf (pipe w)) = [] \<and>
            exit (connOf (pipe w))"
  proof
    assume cl: "closed (connOf (pipe w))"
    have f: "stages w st = Finished" for st by (rule inv_closed_finished [OF inv cl])
    from D(3) [of Router] f [of Router] have "closeOnce (connOf (pipe w))" by simp
    with D(6) [OF cl] f c1 show "(\<forall>st. stages w st = Finished) \<and> wg w = 0 \<and>
        requests (connOf (pipe w)) = [] \<and> exit (connOf (pipe w))" by simp
  qed
  have c9: "\<forall>w' req. step Pack Teardown w = Next w' \<and>
              req \<in> snd ` set (requests (connOf (pipe w))) \<union> set (queue (requestChan (connOf (pipe w)))) \<longrightarrow>
              closed (connOf (pipe w')) \<and> \<not> closed (connOf (pipe w)) \<and>
              isClosed (replyStore (pipe w') (replyChan req)) \<and>
              received (replyStore (pipe w') (replyChan req)) =
                received (replyStore (pipe w) (replyChan req)) @ [errorResponse ConnectionClosed]"
  proof (intro allI impI, elim conjE)
    fix w' req
    assume st: "step Pack Teardown w = Next w'"
      and req: "req \<in> snd ` set (requests (connOf (pipe w))) \<union> set (queue (requestChan (connOf (pipe w))))"
    from st obtain h' conn' where
      td: "worker_teardown (replyStore (pipe w)) (connOf (pipe w)) = Inr (h', conn')"
      and w': "w' = w\<lparr>pipe := (pipe w)\<lparr>connOf := conn', replyStore := h'\<rparr>\<rparr>"
      and nc: "\<not> closed (connOf (pipe w))"
      by (auto simp: step_def Let_def split: if_splits sum.splits)
    from worker_teardown_delivers [OF td req] inv_Teardown [OF inv st] nc
    show "closed (connOf (pipe w')) \<and> \<not> closed (connOf (pipe w)) \<and>
              isClosed (replyStore (pipe w') (replyChan req)) \<and>
              received (replyStore (pipe w') (replyChan req)) =
                received (replyStore (pipe w) (replyChan req)) @ [errorResponse ConnectionClosed]"
      by (simp add: w')
  qed
  from c1 c2 cnt c4 c5 c5' c6 c7 c8 c9 show ?thesis
    by (intro conjI)
qed

lemma fun_upd_stage_simps [simp]:
  "Router \<noteq> Writer" "Router \<noteq> Reader" "Writer \<noteq> Reader"
  by simp_all

lemma closeTwice_run:
  "\<exists>w. run examplePack closeTwice (worker_start emptyStore pendingConnection) = Next w \<and>
       closeReturned w = 2 \<and> closeWaiting w = 0 \<and>
       closed (connOf (pipe w)) \<and> exit (connOf (pipe w)) \<and>
       requests (connOf (pipe w)) = [] \<and>
       map_option closeCalls (tcpConn (connOf (pipe w))) = Some 1 \<and>
       received (replyStore (pipe w) 5) = [errorResponse ConnectionClosed] \<and>
       isClosed (replyStore (pipe w) 5)"
  by (simp add: closeTwice_def worker_start_def pendingConnection_def freshConnection_def
      quietSocket_def emptyStore_def oldRequest_def make_chan_def
      step_def Let_def stop_def sock_Close_def with_conn_def finish_select_def
      router_select_def case_ready_def writer_select_def reader_breaks sock_stream_def
      worker_teardown_def and_then_def send_def close_chan_def Close_can_return_def
      AList.delete_eq)

text \<open>
  The theorem on a connection with one pending request, two calls of \<^verbatim>\<open>Close\<close> and a
  schedule that runs the shutdown to its end: both calls return, after the one
  teardown, and the pending request has been failed.
\<close>

theorem Close_teardown_once_witness:
  "opened pendingConnection \<and>
   (\<exists>w. run examplePack closeTwice (worker_start emptyStore pendingConnection) = Next w \<and>
        count_list closeTwice CloseCall = 2 \<and>
        closeReturned w = 2 \<and> closeWaiting w = 0 \<and>
        exit (connOf (pipe w)) \<and>
        map_option closeCalls (tcpConn (connOf (pipe w))) = Some 1 \<and>
        closed (connOf (pipe w)) \<and>
        (\<forall>st. stages w st = Finished) \<and>
        requests (connOf (pipe w)) = [] \<and>
        received (replyStore (pipe w) 5) = [errorResponse ConnectionClosed])"
proof -
  have op: "opened pendingConnection"
    by (simp add: opened_def pendingConnection_def freshConnection_def quietSocket_def)
  from closeTwice_run obtain w where
    run: "run examplePack closeTwice (worker_start emptyStore pendingConnection) = Next w"
    and ret: "closeReturned w = 2" "closeWaiting w = 0"
    and rcv: "received (replyStore (pipe w) 5) = [errorResponse ConnectionClosed]"
    by blast
  note T = Close_teardown_once [OF op run]
  from T have cnt: "closeWaiting w + closeReturned w = count_list closeTwice CloseCall" by blast
  with ret have two: "count_list closeTwice CloseCall = 2" by simp
  from T have "0 < closeReturned w \<longrightarrow> closed (connOf (pipe w))" by blast
  with ret have cl: "closed (connOf (pipe w))" by simp
  from T cl have fin: "(\<forall>st. stages w st = Finished) \<and> requests (connOf (pipe w)) = [] \<and>
      exit (connOf (pipe w))" by blast
  from T have "map_option closeCalls (tcpConn (connOf (pipe w))) =
           Some (if exit (connOf (pipe w)) then 1 else 0)" by blast
  with fin have once: "map_option closeCalls (tcpConn (connOf (pipe w))) = Some 1" by simp
  from op run two ret cl fin once rcv show ?thesis by blast
qed

section \<open>Delivery on the failure of \<^verbatim>\<open>Pack\<close>\<close>

text \<open>
  A request that cannot be packed, given to \<open>newRequest\<close> on a new connection:
  \<open>newRequest\<close> sends the query error to the request's reply channel and returns
  without closing it.
\<close>

lemma newRequest_pack_failure_leaves_channel_open:
  "newRequest examplePack emptyStore freshConnection failingRequest =
     Inr (Some (Foreign ''cannot pack''), failingRequest,
          emptyStore
            (replyChan failingRequest :=
               \<lparr>received = [errorResponse (QueryError (Foreign ''cannot pack''))], isClosed = False\<rparr>),
          freshConnection\<lparr>requestID := 1\<rparr>)"
proof -
  have ev: "evict emptyStore (snd (nextID freshConnection)) (fst (nextID freshConnection)) =
      Inr (emptyStore, freshConnection\<lparr>requestID := 1\<rparr>)"
    by (simp add: evict_def nextID_def freshConnection_def MaxUint32_def)
  have pf: "snd (examplePack (query failingRequest) (fst (nextID freshConnection))
             (defaultSpace freshConnection)) = Some (Foreign ''cannot pack'')"
    by (simp add: examplePack_def failingRequest_def)
  have op: "\<not> isClosed (emptyStore (replyChan failingRequest))"
    by (simp add: emptyStore_def)
  show ?thesis
    unfolding newRequest_pack_failure [where Pack = examplePack and r = failingRequest
        and conn = freshConnection and h = emptyStore, OF pf ev op]
    by (simp add: examplePack_def failingRequest_def emptyStore_def)
qed

text \<open>
  Claim C1 at a request that cannot be packed: it is submitted to a new connection, the
  Router takes it, and then the connection is shut down by two calls of \<^verbatim>\<open>Close\<close>, which
  both return. At the end the request's reply channel has received exactly one value,
  the query error, and is still open: the request was never registered, so neither the
  Router nor the teardown closes its channel. The other paths (eviction,
  \<open>handleReply\<close>, the teardown) close the channel after their send.
\<close>

theorem pack_failure_channel_never_closed:
  "\<exists>w. run examplePack failThenClose (worker_start emptyStore freshConnection) = Next w \<and>
       closeReturned w = 2 \<and> closed (connOf (pipe w)) \<and>
       requests (connOf (pipe w)) = [] \<and> queue (requestChan (connOf (pipe w))) = [] \<and>
       queue (writeChan (pipe w)) = [] \<and>
       received (replyStore (pipe w) (replyChan failingRequest)) =
         [errorResponse (QueryError (Foreign ''cannot pack''))] \<and>
       \<not> isClosed (replyStore (pipe w) (replyChan failingRequest))"
  by (simp add: failThenClose_def closeTwice_def worker_start_def freshConnection_def
      quietSocket_def emptyStore_def failingRequest_def make_chan_def examplePack_def
      step_def Let_def stop_def sock_Close_def with_conn_def finish_select_def
      router_select_def case_ready_def routerRequestChan_def readChanThreshold_def recv_ready_def
      newRequest_def evict_def nextID_def MaxUint32_def errorResponse_def
      writer_select_def reader_breaks sock_stream_def
      worker_teardown_def and_then_def send_def close_chan_def Close_can_return_def)

end
